theory Spec2Isabelle
  imports Main "HOL-Library.Sublist" "HOL-Library.AList"
begin

section \<open>Python values, exceptions and strings\<close>

text \<open>
  The development embeds the data-loading part of \<^verbatim>\<open>web_app.py\<close>: the function
  \<^verbatim>\<open>parse_text_log\<close> and the loading branch of \<^verbatim>\<open>generate_visualizations\<close>.
  A Python \<^verbatim>\<open>str\<close> is a \<^typ>\<open>string\<close>; a character is a code point below 256.
  Exceptions are values of the type \<open>exn\<close>, each carrying the text that \<^verbatim>\<open>str(e)\<close> gives;
  \<open>OtherError\<close> stands for an exception of any other class.
\<close>

datatype exn =
    OSError string
  | UnicodeDecodeError string
  | JSONDecodeError string
  | ParserError string
  | IndexError string
  | ValueError string
  | OtherError string

fun str_exn :: "exn \<Rightarrow> string" where
  "str_exn (OSError m) = m"
| "str_exn (UnicodeDecodeError m) = m"
| "str_exn (JSONDecodeError m) = m"
| "str_exn (ParserError m) = m"
| "str_exn (IndexError m) = m"
| "str_exn (ValueError m) = m"
| "str_exn (OtherError m) = m"

text \<open>
  A float is kept as the decimal its literal denotes: \<open>Finite neg m e\<close> stands for
  \<open>(-1)^neg * m * 10^e\<close>, which Python rounds to the nearest double.
\<close>

datatype pyfloat = Finite bool nat int | Infinity bool | NaN

datatype pyval =
    PNone
  | PBool bool
  | PInt int
  | PFloat pyfloat
  | PStr string
  | PList "pyval list"
  | PDict "(string \<times> pyval) list"

text \<open>A \<^verbatim>\<open>dict\<close> with string keys, in insertion order.\<close>

type_synonym pydict = "(string \<times> pyval) list"

text \<open>\<^verbatim>\<open>k in d\<close>\<close>

definition has_key :: "string \<Rightarrow> pydict \<Rightarrow> bool" where
  "has_key k d = (map_of d k \<noteq> None)"

text \<open>A \<^verbatim>\<open>pandas.DataFrame\<close> that was built, represented by the rows it was built from.\<close>

datatype dataframe = DataFrame "pyval list"

abbreviation LF :: char where "LF \<equiv> CHR 0x0A"
abbreviation CR :: char where "CR \<equiv> CHR 0x0D"

text \<open>\<^verbatim>\<open>str.isspace\<close> on one character (the white space of Unicode below 256).\<close>

definition isspace :: "char \<Rightarrow> bool" where
  "isspace c = (c \<in> set [CHR 0x09, CHR 0x0A, CHR 0x0B, CHR 0x0C, CHR 0x0D,
                          CHR 0x1C, CHR 0x1D, CHR 0x1E, CHR 0x1F, CHR 0x20,
                          CHR 0x85, CHR 0xA0])"

text \<open>\<^verbatim>\<open>s.strip()\<close>\<close>

definition strip :: "string \<Rightarrow> string" where
  "strip s = rev (dropWhile isspace (rev (dropWhile isspace s)))"

text \<open>\<^verbatim>\<open>s.lower()\<close>: the letters A-Z and the upper-case letters of Latin-1 move by 32.\<close>

definition lower_char :: "char \<Rightarrow> char" where
  "lower_char c =
     (let n = (of_char c :: nat) in
      if (65 \<le> n \<and> n \<le> 90) \<or> (192 \<le> n \<and> n \<le> 222 \<and> n \<noteq> 215)
      then char_of (n + 32) else c)"

definition lower :: "string \<Rightarrow> string" where
  "lower s = map lower_char s"

text \<open>\<^verbatim>\<open>s.find(sub)\<close>: the lowest index at which \<open>sub\<close> occurs, \<open>None\<close> for -1.\<close>

fun find_str :: "string \<Rightarrow> string \<Rightarrow> nat option" where
  "find_str sub [] = (if sub = [] then Some 0 else None)"
| "find_str sub (c # cs) =
     (if prefix sub (c # cs) then Some 0 else map_option Suc (find_str sub cs))"

text \<open>\<^verbatim>\<open>sub in s\<close>\<close>

definition contains :: "string \<Rightarrow> string \<Rightarrow> bool" where
  "contains sub s = (find_str sub s \<noteq> None)"

lemma find_str_bound: "find_str sub s = Some i \<Longrightarrow> i + length sub \<le> length s"
proof (induction s arbitrary: i)
  case Nil
  then show ?case by (simp split: if_splits)
next
  case (Cons c cs)
  show ?case
  proof (cases "prefix sub (c # cs)")
    case True
    with Cons.prems prefix_length_le [of sub "c # cs"] show ?thesis by simp
  next
    case False
    with Cons.prems obtain j where "find_str sub cs = Some j" "i = Suc j" by auto
    with Cons.IH show ?thesis by fastforce
  qed
qed

text \<open>
  \<^verbatim>\<open>s.split(sep)\<close> for a separator that is not empty: cut at the leftmost occurrence and
  go on behind it. Every separator of the program is a literal that is not empty (Python
  raises on an empty one).
\<close>

function split_str :: "string \<Rightarrow> string \<Rightarrow> string list" where
  "split_str sep s =
     (if sep = [] then [s]
      else (case find_str sep s of
              None \<Rightarrow> [s]
            | Some i \<Rightarrow> take i s # split_str sep (drop (i + length sep) s)))"
  by pat_completeness auto
termination
proof (relation "measure (\<lambda>(sep, s). length s)")
  show "wf (measure (\<lambda>(sep, s). length s))" by simp
next
  fix sep s :: string and i :: nat
  assume "sep \<noteq> []" and "find_str sep s = Some i"
  then have "i + length sep \<le> length s" and "0 < length sep"
    by (simp_all add: find_str_bound)
  then have "length s - (i + length sep) < length s"
    by arith
  then show "((sep, drop (i + length sep) s), (sep, s)) \<in> measure (\<lambda>(sep, s). length s)"
    by simp
qed

declare split_str.simps [simp del]

text \<open>\<^verbatim>\<open>s.split(sep, 1)\<close>\<close>

definition split_max1 :: "string \<Rightarrow> string \<Rightarrow> string list" where
  "split_max1 sep s =
     (case find_str sep s of
        None \<Rightarrow> [s]
      | Some i \<Rightarrow> [take i s, drop (i + length sep) s])"

text \<open>\<^verbatim>\<open>xs[1]\<close>\<close>

definition item1 :: "string list \<Rightarrow> exn + string" where
  "item1 xs = (if 1 < length xs then Inr (xs ! 1) else Inl (IndexError ''list index out of range''))"

subsection \<open>The built-in \<^verbatim>\<open>float\<close> on a string\<close>

text \<open>
  CPython first maps white space above ASCII to a blank and any other character above ASCII
  to a question mark, then checks and removes the underscores between digits, strips the
  white space of C, and reads a sign, then \<^verbatim>\<open>inf\<close>, \<^verbatim>\<open>infinity\<close>, \<^verbatim>\<open>nan\<close> or a decimal
  number with an optional exponent; the whole string has to be consumed.
\<close>

definition isdigit :: "char \<Rightarrow> bool" where
  "isdigit c = (c \<in> set ''0123456789'')"

definition digits_val :: "string \<Rightarrow> nat" where
  "digits_val ds = foldl (\<lambda>n c. 10 * n + (of_char c - 48)) 0 ds"

definition c_isspace :: "char \<Rightarrow> bool" where
  "c_isspace c = (c \<in> set [CHR 0x09, CHR 0x0A, CHR 0x0B, CHR 0x0C, CHR 0x0D, CHR 0x20])"

definition to_ascii :: "char \<Rightarrow> char" where
  "to_ascii c =
     (if (of_char c :: nat) < 127 then c
      else if isspace c then CHR 0x20 else CHR ''?'')"

fun underscores_ok :: "char \<Rightarrow> string \<Rightarrow> bool" where
  "underscores_ok prev [] = (prev \<noteq> CHR ''_'')"
| "underscores_ok prev (c # cs) =
     ((if c = CHR ''_'' then isdigit prev
       else if prev = CHR ''_'' then isdigit c else True)
      \<and> underscores_ok c cs)"

definition take_sign :: "string \<Rightarrow> bool \<times> string" where
  "take_sign s =
     (case s of
        [] \<Rightarrow> (False, [])
      | c # cs \<Rightarrow>
          if c = CHR ''-'' then (True, cs)
          else if c = CHR ''+'' then (False, cs)
          else (False, s))"

definition parse_exponent :: "string \<Rightarrow> int option" where
  "parse_exponent t =
     (let (neg, ds) = take_sign t in
      if ds \<noteq> [] \<and> list_all isdigit ds
      then Some (if neg then - int (digits_val ds) else int (digits_val ds))
      else None)"

definition strtod :: "string \<Rightarrow> pyfloat option" where
  "strtod s =
     (let (neg, r) = take_sign s; l = lower r in
      if l = ''inf'' \<or> l = ''infinity'' then Some (Infinity neg)
      else if l = ''nan'' then Some NaN
      else
        let ip = takeWhile isdigit r;
            r1 = dropWhile isdigit r;
            fp = (case r1 of [] \<Rightarrow> [] | c # t \<Rightarrow> if c = CHR ''.'' then takeWhile isdigit t else []);
            r2 = (case r1 of [] \<Rightarrow> [] | c # t \<Rightarrow> if c = CHR ''.'' then dropWhile isdigit t else r1)
        in
          if ip = [] \<and> fp = [] then None
          else (case r2 of
                  [] \<Rightarrow> Some (Finite neg (digits_val (ip @ fp)) (- int (length fp)))
                | c # t \<Rightarrow>
                    if c = CHR ''e'' \<or> c = CHR ''E'' then
                      (case parse_exponent t of
                         None \<Rightarrow> None
                       | Some e \<Rightarrow> Some (Finite neg (digits_val (ip @ fp)) (e - int (length fp))))
                    else None))"

definition py_float :: "string \<Rightarrow> exn + pyfloat" where
  "py_float s0 =
     (let s = map to_ascii s0 in
      if \<not> underscores_ok (CHR 0x00) s then Inl (ValueError ''could not convert string to float'')
      else
        (case strtod (rev (dropWhile c_isspace (rev (dropWhile c_isspace (filter (\<lambda>c. c \<noteq> CHR ''_'') s))))) of
           None \<Rightarrow> Inl (ValueError ''could not convert string to float'')
         | Some x \<Rightarrow> Inr x))"

section \<open>The text-log parser\<close>

text \<open>
  \<^verbatim>\<open>line.split(':', 1)[1].strip()\<close>, the expression every branch of the label chain
  evaluates.
\<close>

definition field_value :: "string \<Rightarrow> exn + string" where
  "field_value line =
     (case item1 (split_max1 '':'' line) of
        Inl e \<Rightarrow> Inl e
      | Inr v \<Rightarrow> Inr (strip v))"

text \<open>
  The body of the loop over the lines of a block. The \<^verbatim>\<open>try\<close> around the temperature
  assignment has a bare \<^verbatim>\<open>except: pass\<close>, which catches whatever the expression raises.
\<close>

definition parse_line :: "pydict \<Rightarrow> string \<Rightarrow> exn + pydict" where
  "parse_line test line0 =
     (let line = strip line0 in
      if contains ''Model:'' line \<or> contains ''model:'' line then
        (case field_value line of
           Inl e \<Rightarrow> Inl e
         | Inr v \<Rightarrow> Inr (AList.update ''model'' (PStr v) test))
      else if contains ''Category:'' line \<or> contains ''category:'' line then
        (case field_value line of
           Inl e \<Rightarrow> Inl e
         | Inr v \<Rightarrow> Inr (AList.update ''category'' (PStr v) test))
      else if contains ''Language:'' line \<or> contains ''language:'' line then
        (case field_value line of
           Inl e \<Rightarrow> Inl e
         | Inr v \<Rightarrow> Inr (AList.update ''language'' (PStr v) test))
      else if contains ''Temperature:'' line \<or> contains ''temperature:'' line then
        (case field_value line of
           Inl e \<Rightarrow> Inr test
         | Inr v \<Rightarrow>
             (case py_float v of
                Inl e \<Rightarrow> Inr test
              | Inr x \<Rightarrow> Inr (AList.update ''temperature'' (PFloat x) test)))
      else if contains ''Success:'' line \<or> contains ''success:'' line then
        (case field_value line of
           Inl e \<Rightarrow> Inl e
         | Inr v \<Rightarrow>
             Inr (AList.update ''success''
                    (PInt (if lower v \<in> set [''true'', ''1'', ''yes'', ''success''] then 1 else 0))
                    test))
      else Inr test)"

text \<open>The loop over the lines: the first exception ends it.\<close>

fun parse_lines :: "pydict \<Rightarrow> string list \<Rightarrow> exn + pydict" where
  "parse_lines test [] = Inr test"
| "parse_lines test (l # ls) =
     (case parse_line test l of
        Inl e \<Rightarrow> Inl e
      | Inr test' \<Rightarrow> parse_lines test' ls)"

text \<open>One block: \<^verbatim>\<open>test = {}\<close>, then the loop over \<^verbatim>\<open>block.split('\n')\<close>.\<close>

definition parse_block :: "string \<Rightarrow> exn + pydict" where
  "parse_block block = parse_lines [] (split_str [LF] block)"

text \<open>The loop over the blocks; \<open>data\<close> is the list the records are appended to.\<close>

fun parse_blocks :: "pydict list \<Rightarrow> string list \<Rightarrow> exn + pydict list" where
  "parse_blocks data [] = Inr data"
| "parse_blocks data (b # bs) =
     (case parse_block b of
        Inl e \<Rightarrow> Inl e
      | Inr test \<Rightarrow>
          parse_blocks
            (if has_key ''model'' test \<and> has_key ''category'' test then data @ [test] else data)
            bs)"

text \<open>\<^verbatim>\<open>[b.strip() for b in content.split('\n\n') if b.strip()]\<close>\<close>

definition blocks :: "string \<Rightarrow> string list" where
  "blocks content = map strip (filter (\<lambda>b. strip b \<noteq> []) (split_str [LF, LF] content))"

text \<open>
  What \<^verbatim>\<open>open(filepath, 'r', encoding='utf-8')\<close> and \<^verbatim>\<open>f.read()\<close> do is not code of the
  program. A \<open>world\<close> gives, for a path, the file's bytes decoded as UTF-8 or the exception
  raised (\<open>decoded\<close>), and the outcomes of the two library readers. The text mode of
  \<^verbatim>\<open>open\<close> turns the line ends CR LF and CR into LF (\<open>universal_newlines\<close>).
  \<open>pd_DataFrame\<close> is the call \<^verbatim>\<open>pd.DataFrame(rows)\<close> on rows read from JSON: pandas
  builds a frame or raises, depending on the rows.
\<close>

record path =
  path_str :: string
  suffix :: string

record world =
  decoded :: "path \<Rightarrow> exn + string"
  json_load :: "path \<Rightarrow> exn + pyval"
  read_csv :: "path \<Rightarrow> exn + dataframe"
  pd_DataFrame :: "pyval list \<Rightarrow> exn + dataframe"

fun universal_newlines :: "string \<Rightarrow> string" where
  "universal_newlines [] = []"
| "universal_newlines [c] = [if c = CR then LF else c]"
| "universal_newlines (c # d # cs) =
     (if c = CR \<and> d = LF then LF # universal_newlines cs
      else if c = CR then LF # universal_newlines (d # cs)
      else c # universal_newlines (d # cs))"

definition open_read :: "world \<Rightarrow> path \<Rightarrow> exn + string" where
  "open_read w p =
     (case decoded w p of
        Inl e \<Rightarrow> Inl e
      | Inr t \<Rightarrow> Inr (universal_newlines t))"

text \<open>
  The body of the \<^verbatim>\<open>try\<close> of \<^verbatim>\<open>parse_text_log\<close>. Its rows are flat records of strings,
  floats and integers, from which pandas always builds a frame.
\<close>

definition parse_text_log_try :: "world \<Rightarrow> path \<Rightarrow> exn + dataframe option" where
  "parse_text_log_try w filepath =
     (case open_read w filepath of
        Inl e \<Rightarrow> Inl e
      | Inr content \<Rightarrow>
          (case parse_blocks [] (blocks content) of
             Inl e \<Rightarrow> Inl e
           | Inr data \<Rightarrow> Inr (if data \<noteq> [] then Some (DataFrame (map PDict data)) else None)))"

text \<open>
  \<^verbatim>\<open>parse_text_log\<close>: \<^verbatim>\<open>except Exception\<close> prints the exception and returns \<^verbatim>\<open>None\<close>.
  The result type keeps a place for an exception that would leave the function.
\<close>

definition parse_text_log :: "world \<Rightarrow> path \<Rightarrow> exn + dataframe option" where
  "parse_text_log w filepath =
     (case parse_text_log_try w filepath of
        Inl e \<Rightarrow> Inr None
      | Inr r \<Rightarrow> Inr r)"

section \<open>The loading branch of the pipeline\<close>

text \<open>
  The global \<^verbatim>\<open>current_status\<close> dictionary.
\<close>

record status =
  running :: bool
  progress :: nat
  message :: string
  output_dir :: "string option"
  charts :: "string list"
  tables :: "string list"
  error :: "string option"

text \<open>
  The section \<^verbatim>\<open># Load data\<close> of \<^verbatim>\<open>generate_visualizations\<close>: the strategy is chosen
  by \<^verbatim>\<open>filepath.suffix.lower()\<close>. In the JSON branch the call of \<^verbatim>\<open>pd.DataFrame\<close> stands
  inside the \<^verbatim>\<open>try\<close>, so an exception it raises ends the loading like any other.
\<close>

definition load_data :: "world \<Rightarrow> path \<Rightarrow> exn + dataframe" where
  "load_data w filepath =
     (if lower (suffix filepath) = ''.csv'' then read_csv w filepath
      else if lower (suffix filepath) = ''.json'' then
        (case json_load w filepath of
           Inl e \<Rightarrow> Inl e
         | Inr data \<Rightarrow> pd_DataFrame w (case data of PList xs \<Rightarrow> xs | _ \<Rightarrow> [data]))
      else if lower (suffix filepath) = ''.txt'' then
        (case parse_text_log w filepath of
           Inl e \<Rightarrow> Inl e
         | Inr None \<Rightarrow> Inl (ValueError ''Failed to parse text file'')
         | Inr (Some df) \<Rightarrow> Inr df)
      else Inl (ValueError (''Unsupported file type: '' @ suffix filepath)))"

text \<open>
  \<^verbatim>\<open>generate_visualizations\<close>. What follows the loading (the output directory, the calls
  into the visualization engine, the collection of the results) is not code of this file:
  \<open>stages\<close> stands for it, giving the status it leaves and the exception it raised, if any.
  The \<^verbatim>\<open>except\<close> clause stores the exception's text, \<^verbatim>\<open>finally\<close> clears \<^verbatim>\<open>running\<close>.
\<close>

definition generate_visualizations ::
  "(dataframe \<Rightarrow> status \<Rightarrow> exn option \<times> status) \<Rightarrow> world \<Rightarrow> status \<Rightarrow> path \<Rightarrow> status" where
  "generate_visualizations stages w current_status filepath =
     (let s1 = current_status\<lparr>running := True, progress := 5,
                               message := ''Loading data...'', error := None\<rparr>;
          (raised, s2) = (case load_data w filepath of
                            Inl e \<Rightarrow> (Some e, s1)
                          | Inr df \<Rightarrow> stages df s1);
          s3 = (case raised of
                  None \<Rightarrow> s2
                | Some e \<Rightarrow> s2\<lparr>error := Some (str_exn e),
                                 message := ''Error: '' @ str_exn e\<rparr>)
      in s3\<lparr>running := False\<rparr>)"

section \<open>Notions used to state the properties\<close>

text \<open>Everything after the first colon of a line.\<close>

definition after_colon :: "string \<Rightarrow> string" where
  "after_colon line = drop 1 (dropWhile (\<lambda>c. c \<noteq> CHR '':'') line)"

text \<open>The five conditions of the label chain, in its order.\<close>

abbreviation model_label :: "string \<Rightarrow> bool" where
  "model_label line \<equiv> contains ''Model:'' line \<or> contains ''model:'' line"
abbreviation category_label :: "string \<Rightarrow> bool" where
  "category_label line \<equiv> contains ''Category:'' line \<or> contains ''category:'' line"
abbreviation language_label :: "string \<Rightarrow> bool" where
  "language_label line \<equiv> contains ''Language:'' line \<or> contains ''language:'' line"
abbreviation temperature_label :: "string \<Rightarrow> bool" where
  "temperature_label line \<equiv> contains ''Temperature:'' line \<or> contains ''temperature:'' line"
abbreviation success_label :: "string \<Rightarrow> bool" where
  "success_label line \<equiv> contains ''Success:'' line \<or> contains ''success:'' line"

text \<open>
  The labels of the chain in its order, each with its key and its two spellings, and the key
  of the first of them that a line contains.
\<close>

definition labels :: "(string \<times> string \<times> string) list" where
  "labels =
     [(''model'', ''Model:'', ''model:''),
      (''category'', ''Category:'', ''category:''),
      (''language'', ''Language:'', ''language:''),
      (''temperature'', ''Temperature:'', ''temperature:''),
      (''success'', ''Success:'', ''success:'')]"

definition first_label :: "string \<Rightarrow> string option" where
  "first_label line =
     map_option fst (find (\<lambda>(k, a, b). contains a line \<or> contains b line) labels)"

text \<open>A string that is not empty and neither starts nor ends with white space.\<close>

definition trimmed :: "string \<Rightarrow> bool" where
  "trimmed b = (b \<noteq> [] \<and> \<not> isspace (hd b) \<and> \<not> isspace (last b))"

text \<open>
  Worlds for concrete runs: a file that holds a given text, a file that cannot be opened,
  a file in which \<^verbatim>\<open>json.load\<close> finds a given value, and a file that \<^verbatim>\<open>pd.read_csv\<close> reads
  as a given frame. In each of them \<^verbatim>\<open>pd.DataFrame\<close> builds a frame from rows that are all
  mappings or all scalars, and raises on any other list of rows.
\<close>

definition is_mapping :: "pyval \<Rightarrow> bool" where
  "is_mapping v = (case v of PDict d \<Rightarrow> True | _ \<Rightarrow> False)"

definition is_scalar :: "pyval \<Rightarrow> bool" where
  "is_scalar v = (case v of PDict d \<Rightarrow> False | PList xs \<Rightarrow> False | _ \<Rightarrow> True)"

definition uniform_rows :: "pyval list \<Rightarrow> exn + dataframe" where
  "uniform_rows rows =
     (if list_all is_mapping rows \<or> list_all is_scalar rows then Inr (DataFrame rows)
      else Inl (OtherError ''rows of mixed shape''))"

definition file_with_text :: "string \<Rightarrow> world" where
  "file_with_text t =
     \<lparr>decoded = (\<lambda>p. Inr t),
      json_load = (\<lambda>p. Inl (JSONDecodeError ''Expecting value'')),
      read_csv = (\<lambda>p. Inl (ParserError ''Error tokenizing data'')),
      pd_DataFrame = uniform_rows\<rparr>"

definition unreadable_file :: world where
  "unreadable_file =
     \<lparr>decoded = (\<lambda>p. Inl (OSError ''No such file or directory'')),
      json_load = (\<lambda>p. Inl (OSError ''No such file or directory'')),
      read_csv = (\<lambda>p. Inl (OSError ''No such file or directory'')),
      pd_DataFrame = uniform_rows\<rparr>"

definition file_with_json :: "pyval \<Rightarrow> world" where
  "file_with_json v =
     \<lparr>decoded = (\<lambda>p. Inl (UnicodeDecodeError ''not modelled'')),
      json_load = (\<lambda>p. Inr v),
      read_csv = (\<lambda>p. Inl (ParserError ''Error tokenizing data'')),
      pd_DataFrame = uniform_rows\<rparr>"

definition file_with_csv :: "dataframe \<Rightarrow> world" where
  "file_with_csv df =
     \<lparr>decoded = (\<lambda>p. Inl (UnicodeDecodeError ''not modelled'')),
      json_load = (\<lambda>p. Inl (JSONDecodeError ''Expecting value'')),
      read_csv = (\<lambda>p. Inr df),
      pd_DataFrame = uniform_rows\<rparr>"

section \<open>Lemmas on the string operations\<close>

lemma contains_sublist: "contains sub s \<longleftrightarrow> sublist sub s"
  unfolding contains_def
  by (induction s) (auto simp: sublist_Cons_right)

lemma contains_set: "contains sub s \<Longrightarrow> set sub \<subseteq> set s"
  by (auto simp: contains_sublist sublist_def)

lemma find_str_char:
  "c \<notin> set before \<Longrightarrow> find_str [c] (before @ c # after) = Some (length before)"
  by (induction before) auto

lemma field_value_after:
  assumes "CHR '':'' \<notin> set before"
  shows "field_value (before @ '':'' @ after) = Inr (strip after)"
  using find_str_char [OF assms, of after]
  by (simp add: field_value_def split_max1_def item1_def)

lemma after_colon_append:
  "CHR '':'' \<notin> set before \<Longrightarrow> after_colon (before @ '':'' @ after) = after"
  by (induction before) (auto simp: after_colon_def)

lemma field_value_colon:
  assumes "CHR '':'' \<in> set line"
  shows "field_value line = Inr (strip (after_colon line))"
proof -
  from assms obtain before after where
    l: "line = before @ '':'' @ after" and n: "CHR '':'' \<notin> set before"
    using split_list_first [of "CHR '':''" line] by auto
  show ?thesis
    unfolding l using field_value_after [OF n] after_colon_append [OF n] by simp
qed

lemma field_value_label:
  assumes "contains lbl line \<or> contains lbl' line"
    and "CHR '':'' \<in> set lbl" and "CHR '':'' \<in> set lbl'"
  shows "field_value line = Inr (strip (after_colon line))"
proof -
  from assms contains_set have "CHR '':'' \<in> set line" by blast
  then show ?thesis by (rule field_value_colon)
qed

lemmas field_value_labels =
  field_value_label [of "''Model:''" _ "''model:''", simplified]
  field_value_label [of "''Category:''" _ "''category:''", simplified]
  field_value_label [of "''Language:''" _ "''language:''", simplified]
  field_value_label [of "''Temperature:''" _ "''temperature:''", simplified]
  field_value_label [of "''Success:''" _ "''success:''", simplified]


lemma parse_line_eq:
  "parse_line test line0 =
     Inr (let line = strip line0; v = strip (after_colon line) in
          if contains ''Model:'' line \<or> contains ''model:'' line then
            AList.update ''model'' (PStr v) test
          else if contains ''Category:'' line \<or> contains ''category:'' line then
            AList.update ''category'' (PStr v) test
          else if contains ''Language:'' line \<or> contains ''language:'' line then
            AList.update ''language'' (PStr v) test
          else if contains ''Temperature:'' line \<or> contains ''temperature:'' line then
            (case py_float v of Inl e \<Rightarrow> test
             | Inr x \<Rightarrow> AList.update ''temperature'' (PFloat x) test)
          else if contains ''Success:'' line \<or> contains ''success:'' line then
            AList.update ''success''
              (PInt (if lower v \<in> set [''true'', ''1'', ''yes'', ''success''] then 1 else 0)) test
          else test)"
  by (simp add: parse_line_def Let_def field_value_labels split: sum.split)


lemma has_key_update: "has_key k (AList.update k' v t) \<longleftrightarrow> k = k' \<or> has_key k t"
  by (simp add: has_key_def update_conv')

lemma parse_line_returns: "\<exists>test'. parse_line test line = Inr test'"
  by (simp add: parse_line_eq)

lemma parse_lines_returns: "\<exists>test'. parse_lines test ls = Inr test'"
proof (induction ls arbitrary: test)
  case Nil
  show ?case by simp
next
  case (Cons l ls)
  obtain t where t: "parse_line test l = Inr t" using parse_line_returns by blast
  show ?case using Cons.IH [of t] by (simp only: parse_lines.simps t sum.case)
qed

lemma parse_block_returns: "\<exists>test. parse_block b = Inr test"
  unfolding parse_block_def by (rule parse_lines_returns)

lemma parse_blocks_append:
  "\<exists>recs. map parse_block bs = map Inr recs \<and>
     parse_blocks data bs =
       Inr (data @ filter (\<lambda>t. has_key ''model'' t \<and> has_key ''category'' t) recs)"
proof (induction bs arbitrary: data)
  case Nil
  show ?case by simp
next
  case (Cons b bs)
  obtain t where t: "parse_block b = Inr t" using parse_block_returns by blast
  let ?d = "if has_key ''model'' t \<and> has_key ''category'' t then data @ [t] else data"
  from Cons.IH [of ?d] obtain recs where
    r: "map parse_block bs = map Inr recs"
    and p: "parse_blocks ?d bs = Inr (?d @ filter (\<lambda>t. has_key ''model'' t \<and> has_key ''category'' t) recs)"
    by blast
  have "map parse_block (b # bs) = map Inr (t # recs)"
    using r t by simp
  moreover have "parse_blocks data (b # bs) =
      Inr (data @ filter (\<lambda>t. has_key ''model'' t \<and> has_key ''category'' t) (t # recs))"
    using p by (simp only: parse_blocks.simps t sum.case) simp
  ultimately show ?case by blast
qed

lemma parse_line_model:
  "parse_line test l = Inr t \<Longrightarrow>
     has_key ''model'' t \<longleftrightarrow> has_key ''model'' test \<or> model_label (strip l)"
  by (auto simp: parse_line_eq Let_def has_key_update split: if_splits sum.splits)

lemma parse_line_category:
  "parse_line test l = Inr t \<Longrightarrow>
     has_key ''category'' t \<longleftrightarrow>
       has_key ''category'' test \<or> (\<not> model_label (strip l) \<and> category_label (strip l))"
  by (auto simp: parse_line_eq Let_def has_key_update split: if_splits sum.splits)

lemma strip_ws_prefix: "list_all isspace w \<Longrightarrow> strip (w @ s) = strip s"
  by (simp add: strip_def dropWhile_append2 list_all_iff)

lemma strip_ws_suffix:
  assumes "list_all isspace w"
  shows "strip (s @ w) = strip s"
proof (cases "list_all isspace s")
  case True
  with assms have "dropWhile isspace (s @ w) = []" "dropWhile isspace s = []"
    by (simp_all add: list_all_iff)
  then show ?thesis by (simp only: strip_def)
next
  case False
  then obtain x where "x \<in> set s" "\<not> isspace x" by (auto simp: list_all_iff)
  then have "dropWhile isspace (s @ w) = dropWhile isspace s @ w"
    by (rule dropWhile_append1)
  moreover have "dropWhile isspace (rev w @ rev (dropWhile isspace s)) =
      dropWhile isspace (rev (dropWhile isspace s))"
  proof (rule dropWhile_append2)
    fix x
    assume "x \<in> set (rev w)"
    then show "isspace x" using assms by (simp add: list_all_iff)
  qed
  ultimately show ?thesis by (simp add: strip_def)
qed

lemma strip_Nil_iff: "strip s = [] \<longleftrightarrow> list_all isspace s"
proof
  assume "strip s = []"
  then have "\<forall>x\<in>set (dropWhile isspace s). isspace x"
    by (simp add: strip_def dropWhile_eq_Nil_conv)
  then have "dropWhile isspace s = []"
    using hd_dropWhile [of isspace s] hd_in_set [of "dropWhile isspace s"] by blast
  then show "list_all isspace s" by (simp add: list_all_iff dropWhile_eq_Nil_conv)
next
  assume "list_all isspace s"
  then have "dropWhile isspace s = []" by (simp add: list_all_iff)
  then show "strip s = []" by (simp only: strip_def rev.simps dropWhile.simps)
qed

lemma strip_trimmed:
  assumes "trimmed b"
  shows "strip b = b"
proof -
  from assms obtain x xs where b: "b = x # xs" and x: "\<not> isspace x"
    by (cases b) (auto simp: trimmed_def)
  from assms have l: "\<not> isspace (last b)" and "b = butlast b @ [last b]"
    by (simp_all add: trimmed_def)
  then have "rev b = rev (butlast b @ [last b])" by simp
  then have r: "rev b = last b # rev (butlast b)" by simp
  have "dropWhile isspace (last b # rev (butlast b)) = last b # rev (butlast b)"
    using l by simp
  then have "dropWhile isspace (rev b) = rev b" by (simp only: r)
  moreover have "dropWhile isspace b = b" using b x by simp
  ultimately show ?thesis by (simp add: strip_def)
qed

lemma find_str_Nil: "find_str [] s = Some 0"
  by (cases s) simp_all

lemma find_str_append_first: "find_str sub s = Some i \<Longrightarrow> find_str sub (s @ t) = Some i"
proof (induction s arbitrary: i)
  case Nil
  then show ?case by (simp add: find_str_Nil split: if_splits)
next
  case (Cons c cs)
  show ?case
  proof (cases "prefix sub (c # cs)")
    case True
    then have "prefix sub (c # cs @ t)" by (metis append_Cons prefix_prefix)
    with True Cons.prems show ?thesis by simp
  next
    case False
    with Cons.prems obtain j where j: "find_str sub cs = Some j" "i = Suc j" by auto
    then have len: "length sub \<le> length cs" using find_str_bound by fastforce
    have "\<not> prefix sub (c # cs @ t)"
    proof
      assume "prefix sub (c # cs @ t)"
      then have "prefix sub ((c # cs) @ t)" by simp
      then have "prefix sub (c # cs) \<or> (\<exists>us. sub = (c # cs) @ us \<and> prefix us t)"
        by (simp only: prefix_append)
      with False len show False by auto
    qed
    with j Cons.IH [of j] show ?thesis by simp
  qed
qed

lemma find_lflf_skip:
  "\<not> contains [LF, LF] b \<Longrightarrow> b = [] \<or> last b \<noteq> LF \<Longrightarrow>
     find_str [LF, LF] (b @ s) = map_option (\<lambda>j. length b + j) (find_str [LF, LF] s)"
proof (induction b)
  case Nil
  show ?case by (simp add: option.map_ident)
next
  case (Cons c b)
  from Cons.prems(1) have np: "\<not> prefix [LF, LF] (c # b)" and nc: "\<not> contains [LF, LF] b"
    by (auto simp: contains_def split: if_splits)
  from Cons.prems(2) have lb: "b = [] \<or> last b \<noteq> LF" and c1: "b = [] \<longrightarrow> c \<noteq> LF"
    by (auto split: if_splits)
  have np2: "prefix [LF, LF] (c # b @ s) = False"
    using np c1 by (cases b) auto
  have "find_str [LF, LF] ((c # b) @ s) = map_option Suc (find_str [LF, LF] (b @ s))"
    by (simp only: append_Cons find_str.simps np2 if_False)
  also have "\<dots> = map_option Suc (map_option (\<lambda>j. length b + j) (find_str [LF, LF] s))"
    using Cons.IH [OF nc lb] by simp
  also have "\<dots> = map_option (\<lambda>j. length (c # b) + j) (find_str [LF, LF] s)"
    by (simp add: option.map_comp comp_def)
  finally show ?case .
qed

lemma blocks_unfold:
  "blocks s =
     (case find_str [LF, LF] s of
        None \<Rightarrow> (if strip s = [] then [] else [strip s])
      | Some i \<Rightarrow> (if strip (take i s) = [] then [] else [strip (take i s)]) @ blocks (drop (i + 2) s))"
  unfolding blocks_def
  by (subst split_str.simps) (simp split: option.split)

lemma blocks_Nil: "blocks [] = []"
  by (subst blocks_unfold) (simp add: strip_def)

lemma blocks_space_Cons: "isspace c \<Longrightarrow> blocks (c # s) = blocks s"
proof (induction s arbitrary: c)
  case Nil
  have "strip [c] = []" using Nil by (simp add: strip_Nil_iff)
  then show ?case by (subst blocks_unfold) (simp add: blocks_Nil)
next
  case (Cons d s)
  show ?case
  proof (cases "c = LF \<and> d = LF")
    case True
    have "blocks (c # d # s) = blocks s"
      using True by (subst blocks_unfold) (simp add: strip_def)
    moreover have "blocks (d # s) = blocks s"
      using True Cons.IH [of LF] by (simp add: isspace_def)
    ultimately show ?thesis by simp
  next
    case False
    then have f: "find_str [LF, LF] (c # d # s) = map_option Suc (find_str [LF, LF] (d # s))"
      by auto
    have st: "\<And>t. strip (c # t) = strip t"
      using strip_ws_prefix [of "[c]"] Cons.prems by simp
    show ?thesis
    proof (cases "find_str [LF, LF] (d # s)")
      case None
      then show ?thesis
        using f by (subst blocks_unfold, subst (2) blocks_unfold) (simp add: st)
    next
      case (Some i)
      then show ?thesis
        using f by (subst blocks_unfold, subst (2) blocks_unfold) (simp add: st)
    qed
  qed
qed

lemma blocks_ws_prefix: "list_all isspace w \<Longrightarrow> blocks (w @ s) = blocks s"
  by (induction w) (simp_all add: blocks_space_Cons)

lemma blocks_separator:
  assumes "trimmed b" and "\<not> contains [LF, LF] b"
    and "list_all isspace sep" and "contains [LF, LF] sep"
  shows "blocks (b @ sep @ rest) = b # blocks rest"
proof -
  from assms(4) obtain j where j: "find_str [LF, LF] sep = Some j"
    by (auto simp: contains_def)
  then have jb: "j + 2 \<le> length sep" using find_str_bound by fastforce
  have lb: "b = [] \<or> last b \<noteq> LF"
    using assms(1) by (auto simp: trimmed_def isspace_def)
  have "find_str [LF, LF] (sep @ rest) = Some j"
    using j by (rule find_str_append_first)
  then have f: "find_str [LF, LF] (b @ sep @ rest) = Some (length b + j)"
    using find_lflf_skip [OF assms(2) lb, of "sep @ rest"] by simp
  have t: "take (length b + j) (b @ sep @ rest) = b @ take j sep"
    using jb by simp
  have d: "drop (length b + j + 2) (b @ sep @ rest) = drop (j + 2) sep @ rest"
    using jb by simp
  have "list_all isspace (take j sep)" "list_all isspace (drop (j + 2) sep)"
    using assms(3) by (auto simp: list_all_iff dest: in_set_takeD in_set_dropD)
  then have s1: "strip (b @ take j sep) = b" and s2: "blocks (drop (j + 2) sep @ rest) = blocks rest"
    using strip_ws_suffix strip_trimmed [OF assms(1)] blocks_ws_prefix by simp_all
  have ne: "(b = []) = False" using assms(1) by (simp add: trimmed_def)
  have "blocks (b @ sep @ rest) =
      (if strip (take (length b + j) (b @ sep @ rest)) = [] then []
       else [strip (take (length b + j) (b @ sep @ rest))]) @
      blocks (drop (length b + j + 2) (b @ sep @ rest))"
    by (subst blocks_unfold) (simp only: f option.case)
  then show ?thesis
    by (simp only: t d s1 s2 ne if_False append_Cons append_Nil)
qed

lemma blocks_single:
  assumes "trimmed b" and "\<not> contains [LF, LF] b" and "list_all isspace w"
  shows "blocks (b @ w) = [b]"
proof (cases "contains [LF, LF] w")
  case True
  from blocks_separator [OF assms(1,2,3) True, of "[]"] show ?thesis
    by (simp add: blocks_Nil)
next
  case False
  have lb: "b = [] \<or> last b \<noteq> LF"
    using assms(1) by (auto simp: trimmed_def isspace_def)
  from False have "find_str [LF, LF] w = None" by (simp add: contains_def)
  then have f: "find_str [LF, LF] (b @ w) = None"
    using find_lflf_skip [OF assms(2) lb, of w] by simp
  have "strip (b @ w) = b" "b \<noteq> []"
    using strip_ws_suffix [OF assms(3)] strip_trimmed [OF assms(1)] assms(1)
    by (simp_all add: trimmed_def)
  then show ?thesis using f by (subst blocks_unfold) simp
qed

lemma parse_blocks_returns: "\<exists>data'. parse_blocks data bs = Inr data'"
  using parse_blocks_append [of bs data] by blast

lemma generate_visualizations_load_error:
  "load_data w p = Inl e \<Longrightarrow>
     generate_visualizations stages w s p =
       s\<lparr>running := False, progress := 5, message := ''Error: '' @ str_exn e,
         error := Some (str_exn e)\<rparr>"
  by (simp add: generate_visualizations_def)

section \<open>The properties\<close>

text \<open>
  C9. \<^verbatim>\<open>parse_text_log\<close> never lets an exception out: it returns a table or \<^verbatim>\<open>None\<close>.
  A file that cannot be opened or decoded gives \<^verbatim>\<open>None\<close>; on any text that was read the
  loop over the blocks returns (no line raises), and the result is the table of the collected
  records, or \<^verbatim>\<open>None\<close> when there are none. Printing in the handler is taken to succeed.
\<close>

theorem parse_text_log_total:
  "(\<exists>r. parse_text_log w p = Inr r) \<and>
   (\<forall>e. decoded w p = Inl e \<longrightarrow> parse_text_log w p = Inr None) \<and>
   (\<forall>c. decoded w p = Inr c \<longrightarrow>
      (\<exists>data. parse_blocks [] (blocks (universal_newlines c)) = Inr data \<and>
         parse_text_log w p =
           Inr (if data \<noteq> [] then Some (DataFrame (map PDict data)) else None)))"
proof (intro conjI allI impI)
  show "\<exists>r. parse_text_log w p = Inr r"
    by (simp add: parse_text_log_def split: sum.split)
next
  fix e
  assume "decoded w p = Inl e"
  then show "parse_text_log w p = Inr None"
    by (simp add: parse_text_log_def parse_text_log_try_def open_read_def)
next
  fix c
  assume c: "decoded w p = Inr c"
  obtain data where d: "parse_blocks [] (blocks (universal_newlines c)) = Inr data"
    using parse_blocks_returns by blast
  have "parse_text_log w p = Inr (if data \<noteq> [] then Some (DataFrame (map PDict data)) else None)"
    by (simp add: parse_text_log_def parse_text_log_try_def open_read_def c d)
  with d show "\<exists>data. parse_blocks [] (blocks (universal_newlines c)) = Inr data \<and>
         parse_text_log w p =
           Inr (if data \<noteq> [] then Some (DataFrame (map PDict data)) else None)"
    by blast
qed

theorem parse_text_log_total_witness:
  "parse_text_log unreadable_file \<lparr>path_str = ''log.txt'', suffix = ''.txt''\<rparr> = Inr None \<and>
   parse_text_log (file_with_text (''Model: m'' @ [CR, LF] @ ''Category: c'' @ [CR, LF] @ ''no label here''))
       \<lparr>path_str = ''log.txt'', suffix = ''.txt''\<rparr> =
     Inr (Some (DataFrame [PDict [(''model'', PStr ''m''), (''category'', PStr ''c'')]]))"
proof -
  let ?p = "\<lparr>path_str = ''log.txt'', suffix = ''.txt''\<rparr>"
  let ?t = "''Model: m'' @ [CR, LF] @ ''Category: c'' @ [CR, LF] @ ''no label here''"
  have "decoded unreadable_file ?p = Inl (OSError ''No such file or directory'')"
    by (simp add: unreadable_file_def)
  with parse_text_log_total [of unreadable_file ?p]
  have 1: "parse_text_log unreadable_file ?p = Inr None"
    by blast
  have "decoded (file_with_text ?t) ?p = Inr ?t"
    by (simp add: file_with_text_def)
  with parse_text_log_total [of "file_with_text ?t" ?p]
  obtain data where d: "parse_blocks [] (blocks (universal_newlines ?t)) = Inr data"
    and r: "parse_text_log (file_with_text ?t) ?p =
      Inr (if data \<noteq> [] then Some (DataFrame (map PDict data)) else None)"
    by blast
  have "parse_blocks [] (blocks (universal_newlines ?t)) =
      Inr [[(''model'', PStr ''m''), (''category'', PStr ''c'')]]"
    by code_simp
  with d have "data = [[(''model'', PStr ''m''), (''category'', PStr ''c'')]]"
    by simp
  with r have 2: "parse_text_log (file_with_text ?t) ?p =
      Inr (Some (DataFrame [PDict [(''model'', PStr ''m''), (''category'', PStr ''c'')]]))"
    by simp
  from 1 2 show ?thesis by (rule conjI)
qed

text \<open>
  C3. The loading branch chooses by the lower-cased suffix of the path: \<^verbatim>\<open>.csv\<close> reads with
  \<^verbatim>\<open>pd.read_csv\<close>, \<^verbatim>\<open>.json\<close> with \<^verbatim>\<open>json.load\<close> and \<^verbatim>\<open>pd.DataFrame\<close>, \<^verbatim>\<open>.txt\<close> with
  \<^verbatim>\<open>parse_text_log\<close>. Any
  other suffix raises a \<^verbatim>\<open>ValueError\<close> whose text ends with the suffix as it was written; the
  run stops there, and the text is stored in the \<^verbatim>\<open>error\<close> and \<^verbatim>\<open>message\<close> fields of the
  status, whatever the later stages would do.
\<close>

theorem load_data_strategy:
  "(lower (suffix p) = ''.csv'' \<longrightarrow> load_data w p = read_csv w p) \<and>
   (lower (suffix p) = ''.json'' \<longrightarrow>
      load_data w p =
        (case json_load w p of
           Inl e \<Rightarrow> Inl e
         | Inr data \<Rightarrow> pd_DataFrame w (case data of PList xs \<Rightarrow> xs | _ \<Rightarrow> [data]))) \<and>
   (lower (suffix p) = ''.txt'' \<longrightarrow>
      load_data w p =
        (case parse_text_log w p of
           Inl e \<Rightarrow> Inl e
         | Inr None \<Rightarrow> Inl (ValueError ''Failed to parse text file'')
         | Inr (Some df) \<Rightarrow> Inr df)) \<and>
   (lower (suffix p) \<notin> {''.csv'', ''.json'', ''.txt''} \<longrightarrow>
      load_data w p = Inl (ValueError (''Unsupported file type: '' @ suffix p)) \<and>
      generate_visualizations stages w s p =
        s\<lparr>running := False, progress := 5,
          message := ''Error: Unsupported file type: '' @ suffix p,
          error := Some (''Unsupported file type: '' @ suffix p)\<rparr>)"
proof (intro conjI impI)
  show "lower (suffix p) = ''.csv'' \<Longrightarrow> load_data w p = read_csv w p"
    by (simp add: load_data_def)
next
  assume "lower (suffix p) = ''.json''"
  then show "load_data w p =
        (case json_load w p of
           Inl e \<Rightarrow> Inl e
         | Inr data \<Rightarrow> pd_DataFrame w (case data of PList xs \<Rightarrow> xs | _ \<Rightarrow> [data]))"
    by (simp add: load_data_def)
next
  assume "lower (suffix p) = ''.txt''"
  then show "load_data w p =
        (case parse_text_log w p of
           Inl e \<Rightarrow> Inl e
         | Inr None \<Rightarrow> Inl (ValueError ''Failed to parse text file'')
         | Inr (Some df) \<Rightarrow> Inr df)"
    by (simp add: load_data_def)
next
  assume a: "lower (suffix p) \<notin> {''.csv'', ''.json'', ''.txt''}"
  then show l: "load_data w p = Inl (ValueError (''Unsupported file type: '' @ suffix p))"
    by (simp add: load_data_def)
  show "generate_visualizations stages w s p =
        s\<lparr>running := False, progress := 5,
          message := ''Error: Unsupported file type: '' @ suffix p,
          error := Some (''Unsupported file type: '' @ suffix p)\<rparr>"
    using generate_visualizations_load_error [OF l, of stages s] by simp
qed

theorem load_data_strategy_witness:
  "load_data (file_with_csv (DataFrame [PDict [(''model'', PStr ''m'')]]))
      \<lparr>path_str = ''runs.CSV'', suffix = ''.CSV''\<rparr> =
     Inr (DataFrame [PDict [(''model'', PStr ''m'')]]) \<and>
   load_data (file_with_json (PDict [(''model'', PStr ''x'')]))
      \<lparr>path_str = ''runs.Json'', suffix = ''.Json''\<rparr> =
     Inr (DataFrame [PDict [(''model'', PStr ''x'')]]) \<and>
   load_data unreadable_file \<lparr>path_str = ''runs.TXT'', suffix = ''.TXT''\<rparr> =
     Inl (ValueError ''Failed to parse text file'') \<and>
   load_data unreadable_file \<lparr>path_str = ''data.yaml'', suffix = ''.yaml''\<rparr> =
     Inl (ValueError ''Unsupported file type: .yaml'') \<and>
   error (generate_visualizations (\<lambda>df st. (None, st)) unreadable_file
      \<lparr>running = False, progress = 0, message = ''Ready'', output_dir = None,
        charts = [], tables = [], error = None\<rparr>
      \<lparr>path_str = ''data.yaml'', suffix = ''.yaml''\<rparr>) =
     Some ''Unsupported file type: .yaml''"
proof -
  let ?csv = "\<lparr>path_str = ''runs.CSV'', suffix = ''.CSV''\<rparr>"
  let ?json = "\<lparr>path_str = ''runs.Json'', suffix = ''.Json''\<rparr>"
  let ?txt = "\<lparr>path_str = ''runs.TXT'', suffix = ''.TXT''\<rparr>"
  let ?yaml = "\<lparr>path_str = ''data.yaml'', suffix = ''.yaml''\<rparr>"
  let ?s = "\<lparr>running = False, progress = 0, message = ''Ready'', output_dir = None,
        charts = [], tables = [], error = None\<rparr>"
  have 1: "lower (suffix ?csv) = ''.csv''" by code_simp
  have 2: "lower (suffix ?json) = ''.json''" by code_simp
  have 3: "lower (suffix ?txt) = ''.txt''" by code_simp
  have 4: "lower (suffix ?yaml) \<notin> {''.csv'', ''.json'', ''.txt''}" by code_simp
  have t: "parse_text_log unreadable_file ?txt = Inr None"
    by (simp add: parse_text_log_def parse_text_log_try_def open_read_def unreadable_file_def)
  have u: "uniform_rows [PDict [(''model'', PStr ''x'')]] = Inr (DataFrame [PDict [(''model'', PStr ''x'')]])"
    by code_simp
  show ?thesis
    using load_data_strategy [of ?csv "file_with_csv (DataFrame [PDict [(''model'', PStr ''m'')]])"] 1
      load_data_strategy [of ?json "file_with_json (PDict [(''model'', PStr ''x'')])"] 2
      load_data_strategy [of ?txt unreadable_file] 3 t
      load_data_strategy [of ?yaml unreadable_file "\<lambda>df st. (None, st)" ?s] 4
    by (simp add: file_with_csv_def file_with_json_def u)
qed

text \<open>
  C6, as the claim states it, fails: the loading checks no shape. A JSON file holding the
  number 5 is wrapped as the single row like a mapping; pandas builds a frame of one row
  from it, no exception is raised, and the run goes on into the later stages.
\<close>

theorem json_scalar_counterexample:
  "load_data (file_with_json (PInt 5)) \<lparr>path_str = ''five.json'', suffix = ''.json''\<rparr> =
     Inr (DataFrame [PInt 5]) \<and>
   generate_visualizations (\<lambda>df st. (None, st\<lparr>progress := 100\<rparr>)) (file_with_json (PInt 5))
      \<lparr>running = False, progress = 0, message = ''Ready'', output_dir = None,
        charts = [], tables = [], error = None\<rparr>
      \<lparr>path_str = ''five.json'', suffix = ''.json''\<rparr> =
     \<lparr>running = False, progress = 100, message = ''Loading data...'', output_dir = None,
       charts = [], tables = [], error = None\<rparr>"
proof -
  have 1: "lower ''.json'' = ''.json''" by code_simp
  have 2: "lower ''.json'' \<noteq> ''.csv''" by code_simp
  have 3: "uniform_rows [PInt 5] = Inr (DataFrame [PInt 5])" by code_simp
  show ?thesis
    by (simp add: generate_visualizations_def load_data_def file_with_json_def 1 2 3)
qed

text \<open>
  C6, amended. For a \<^verbatim>\<open>.json\<close> file, a JSON list is handed to \<^verbatim>\<open>pd.DataFrame\<close> as the rows;
  any other JSON value, a mapping or a scalar alike, is handed over wrapped as the single
  row. The loading itself checks no shape and raises nothing of its own: it fails exactly
  with the exception of \<^verbatim>\<open>open\<close> or \<^verbatim>\<open>json.load\<close>, or with the one \<^verbatim>\<open>pd.DataFrame\<close> raises on
  the rows, and then the run ends with that exception's text in the status.
\<close>

theorem json_rows:
  "lower (suffix p) = ''.json'' \<Longrightarrow>
     (\<forall>xs. json_load w p = Inr (PList xs) \<longrightarrow> load_data w p = pd_DataFrame w xs) \<and>
     (\<forall>v. json_load w p = Inr v \<and> (\<forall>xs. v \<noteq> PList xs) \<longrightarrow>
          load_data w p = pd_DataFrame w [v]) \<and>
     (\<forall>e. json_load w p = Inl e \<longrightarrow> load_data w p = Inl e) \<and>
     (\<forall>e. load_data w p = Inl e \<longrightarrow>
          (json_load w p = Inl e \<or> (\<exists>rows. pd_DataFrame w rows = Inl e)) \<and>
          generate_visualizations stages w s p =
            s\<lparr>running := False, progress := 5, message := ''Error: '' @ str_exn e,
              error := Some (str_exn e)\<rparr>)"
proof -
  assume j: "lower (suffix p) = ''.json''"
  have n: "''.json'' \<noteq> ''.csv''" by simp
  have l: "load_data w p =
      (case json_load w p of
         Inl e \<Rightarrow> Inl e
       | Inr data \<Rightarrow> pd_DataFrame w (case data of PList xs \<Rightarrow> xs | _ \<Rightarrow> [data]))"
    by (simp add: load_data_def j)
  show ?thesis
  proof (intro conjI allI impI)
    fix xs assume "json_load w p = Inr (PList xs)"
    then show "load_data w p = pd_DataFrame w xs" by (simp add: l)
  next
    fix v assume "json_load w p = Inr v \<and> (\<forall>xs. v \<noteq> PList xs)"
    then show "load_data w p = pd_DataFrame w [v]" by (cases v) (simp_all add: l)
  next
    fix e assume "json_load w p = Inl e"
    then show "load_data w p = Inl e" by (simp add: l)
  next
    fix e assume e: "load_data w p = Inl e"
    show "json_load w p = Inl e \<or> (\<exists>rows. pd_DataFrame w rows = Inl e)"
    proof (cases "json_load w p")
      case (Inl e')
      with e show ?thesis by (simp add: l)
    next
      case (Inr data)
      with e have "pd_DataFrame w (case data of PList xs \<Rightarrow> xs | _ \<Rightarrow> [data]) = Inl e"
        by (simp add: l)
      then show ?thesis by blast
    qed
  next
    fix e assume "load_data w p = Inl e"
    then show "generate_visualizations stages w s p =
            s\<lparr>running := False, progress := 5, message := ''Error: '' @ str_exn e,
              error := Some (str_exn e)\<rparr>"
      by (rule generate_visualizations_load_error)
  qed
qed

theorem json_rows_witness:
  "load_data (file_with_json (PList [PDict [(''model'', PStr ''a'')], PDict [(''model'', PStr ''b'')]]))
       \<lparr>path_str = ''runs.json'', suffix = ''.json''\<rparr> =
     Inr (DataFrame [PDict [(''model'', PStr ''a'')], PDict [(''model'', PStr ''b'')]]) \<and>
   load_data (file_with_json (PDict [(''model'', PStr ''x'')]))
       \<lparr>path_str = ''runs.json'', suffix = ''.json''\<rparr> =
     Inr (DataFrame [PDict [(''model'', PStr ''x'')]]) \<and>
   load_data (file_with_json (PStr ''abc'')) \<lparr>path_str = ''runs.json'', suffix = ''.json''\<rparr> =
     Inr (DataFrame [PStr ''abc'']) \<and>
   load_data unreadable_file \<lparr>path_str = ''runs.json'', suffix = ''.json''\<rparr> =
     Inl (OSError ''No such file or directory'') \<and>
   load_data (file_with_json (PList [PDict [(''a'', PInt 1)], PInt 5]))
       \<lparr>path_str = ''runs.json'', suffix = ''.json''\<rparr> =
     Inl (OtherError ''rows of mixed shape'') \<and>
   generate_visualizations (\<lambda>df st. (None, st\<lparr>progress := 100\<rparr>))
       (file_with_json (PList [PDict [(''a'', PInt 1)], PInt 5]))
       \<lparr>running = False, progress = 0, message = ''Ready'', output_dir = None,
         charts = [], tables = [], error = None\<rparr>
       \<lparr>path_str = ''runs.json'', suffix = ''.json''\<rparr> =
     \<lparr>running = False, progress = 5, message = ''Error: rows of mixed shape'',
       output_dir = None, charts = [], tables = [], error = Some ''rows of mixed shape''\<rparr>"
proof -
  let ?p = "\<lparr>path_str = ''runs.json'', suffix = ''.json''\<rparr>"
  let ?s = "\<lparr>running = False, progress = 0, message = ''Ready'', output_dir = None,
         charts = [], tables = [], error = None\<rparr>"
  let ?mixed = "PList [PDict [(''a'', PInt 1)], PInt 5]"
  have j: "lower (suffix ?p) = ''.json''" by code_simp
  have u1: "uniform_rows [PDict [(''model'', PStr ''a'')], PDict [(''model'', PStr ''b'')]] =
      Inr (DataFrame [PDict [(''model'', PStr ''a'')], PDict [(''model'', PStr ''b'')]])"
    and u2: "uniform_rows [PDict [(''model'', PStr ''x'')]] = Inr (DataFrame [PDict [(''model'', PStr ''x'')]])"
    and u3: "uniform_rows [PStr ''abc''] = Inr (DataFrame [PStr ''abc''])"
    and u4: "uniform_rows [PDict [(''a'', PInt 1)], PInt 5] = Inl (OtherError ''rows of mixed shape'')"
    by code_simp+
  have 1: "load_data (file_with_json (PList [PDict [(''model'', PStr ''a'')], PDict [(''model'', PStr ''b'')]])) ?p =
      Inr (DataFrame [PDict [(''model'', PStr ''a'')], PDict [(''model'', PStr ''b'')]])"
    using json_rows [OF j, of "file_with_json (PList [PDict [(''model'', PStr ''a'')], PDict [(''model'', PStr ''b'')]])"]
    by (simp add: file_with_json_def u1)
  have 2: "load_data (file_with_json (PDict [(''model'', PStr ''x'')])) ?p =
      Inr (DataFrame [PDict [(''model'', PStr ''x'')]])"
    using json_rows [OF j, of "file_with_json (PDict [(''model'', PStr ''x'')])"]
    by (simp add: file_with_json_def u2)
  have 3: "load_data (file_with_json (PStr ''abc'')) ?p = Inr (DataFrame [PStr ''abc''])"
    using json_rows [OF j, of "file_with_json (PStr ''abc'')"]
    by (simp add: file_with_json_def u3)
  have 4: "load_data unreadable_file ?p = Inl (OSError ''No such file or directory'')"
    using json_rows [OF j, of unreadable_file]
    by (simp add: unreadable_file_def)
  have 5: "load_data (file_with_json ?mixed) ?p = Inl (OtherError ''rows of mixed shape'')"
    using json_rows [OF j, of "file_with_json ?mixed"]
    by (simp add: file_with_json_def u4)
  from json_rows [OF j, of "file_with_json ?mixed" "\<lambda>df st. (None, st\<lparr>progress := 100\<rparr>)" ?s] 5
  have 6: "generate_visualizations (\<lambda>df st. (None, st\<lparr>progress := 100\<rparr>)) (file_with_json ?mixed) ?s ?p =
     \<lparr>running = False, progress = 5, message = ''Error: rows of mixed shape'',
       output_dir = None, charts = [], tables = [], error = Some ''rows of mixed shape''\<rparr>"
    by simp
  from 1 2 3 4 5 6 show ?thesis by blast
qed



text \<open>
  C2, as the claim states it, fails: the labels are matched by case. A line with
  \<^verbatim>\<open>MODEL:\<close> or \<^verbatim>\<open>MoDeL:\<close> assigns nothing, while \<^verbatim>\<open>Model:\<close> assigns the field.
\<close>

theorem label_case_counterexample:
  "parse_line [] ''MODEL: gpt-4'' = Inr [] \<and>
   parse_line [] ''MoDeL: gpt-4'' = Inr [] \<and>
   parse_line [] ''Model: gpt-4'' = Inr [(''model'', PStr ''gpt-4'')]"
  by code_simp

text \<open>
  C2, amended. Each label is recognised in exactly two spellings, capitalised and lower
  case, followed by a colon, anywhere in the stripped line. The first label of the chain
  that occurs decides the field; its value is everything after the first colon of the
  line, stripped (for the temperature converted by \<^verbatim>\<open>float\<close> and assigned only when that
  succeeds, for the success flag turned into 1 or 0). A line with none of the ten
  spellings leaves the record as it is.
\<close>

theorem label_spellings:
  "(model_label (strip l) \<longrightarrow>
      parse_line test l =
        Inr (AList.update ''model'' (PStr (strip (after_colon (strip l)))) test)) \<and>
   (\<not> model_label (strip l) \<and> category_label (strip l) \<longrightarrow>
      parse_line test l =
        Inr (AList.update ''category'' (PStr (strip (after_colon (strip l)))) test)) \<and>
   (\<not> model_label (strip l) \<and> \<not> category_label (strip l) \<and> language_label (strip l) \<longrightarrow>
      parse_line test l =
        Inr (AList.update ''language'' (PStr (strip (after_colon (strip l)))) test)) \<and>
   (\<not> model_label (strip l) \<and> \<not> category_label (strip l) \<and> \<not> language_label (strip l) \<and>
    temperature_label (strip l) \<longrightarrow>
      parse_line test l =
        Inr (case py_float (strip (after_colon (strip l))) of
               Inl e \<Rightarrow> test
             | Inr x \<Rightarrow> AList.update ''temperature'' (PFloat x) test)) \<and>
   (\<not> model_label (strip l) \<and> \<not> category_label (strip l) \<and> \<not> language_label (strip l) \<and>
    \<not> temperature_label (strip l) \<and> success_label (strip l) \<longrightarrow>
      parse_line test l =
        Inr (AList.update ''success''
               (PInt (if lower (strip (after_colon (strip l))) \<in>
                          set [''true'', ''1'', ''yes'', ''success''] then 1 else 0)) test)) \<and>
   (\<not> model_label (strip l) \<and> \<not> category_label (strip l) \<and> \<not> language_label (strip l) \<and>
    \<not> temperature_label (strip l) \<and> \<not> success_label (strip l) \<longrightarrow>
      parse_line test l = Inr test) \<and>
   (\<forall>before after. strip l = before @ '':'' @ after \<and> CHR '':'' \<notin> set before \<longrightarrow>
      after_colon (strip l) = after)"
proof -
  have "\<forall>before after. strip l = before @ '':'' @ after \<and> CHR '':'' \<notin> set before \<longrightarrow>
      after_colon (strip l) = after"
    using after_colon_append by auto
  then show ?thesis
    by (simp add: parse_line_eq Let_def)
qed

theorem label_spellings_witness:
  "parse_line [(''model'', PStr ''old'')] ''  model: gpt-4: turbo  '' =
     Inr [(''model'', PStr ''gpt-4: turbo'')] \<and>
   parse_line [] ''Category: reasoning'' = Inr [(''category'', PStr ''reasoning'')] \<and>
   parse_line [] ''the language: en'' = Inr [(''language'', PStr ''en'')] \<and>
   parse_line [] ''Temperature: 0.7'' = Inr [(''temperature'', PFloat (Finite False 7 (- 1)))] \<and>
   parse_line [] ''Success: Yes'' = Inr [(''success'', PInt 1)] \<and>
   parse_line [(''model'', PStr ''m'')] ''SUCCESS: yes'' = Inr [(''model'', PStr ''m'')] \<and>
   after_colon (strip ''  model: gpt-4: turbo  '') = '' gpt-4: turbo''"
proof -
  have s1: "strip ''  model: gpt-4: turbo  '' = ''model: gpt-4: turbo''"
    and s2: "strip ''Category: reasoning'' = ''Category: reasoning''"
    and s3: "strip ''the language: en'' = ''the language: en''"
    and s4: "strip ''Temperature: 0.7'' = ''Temperature: 0.7''"
    and s5: "strip ''Success: Yes'' = ''Success: Yes''"
    and s6: "strip ''SUCCESS: yes'' = ''SUCCESS: yes''"
    by code_simp+
  have m: "model_label ''model: gpt-4: turbo''" by code_simp
  have c: "\<not> model_label ''Category: reasoning'' \<and> category_label ''Category: reasoning''"
    by code_simp
  have g: "\<not> model_label ''the language: en'' \<and> \<not> category_label ''the language: en'' \<and>
      language_label ''the language: en''"
    by code_simp
  have t: "\<not> model_label ''Temperature: 0.7'' \<and> \<not> category_label ''Temperature: 0.7'' \<and>
      \<not> language_label ''Temperature: 0.7'' \<and> temperature_label ''Temperature: 0.7''"
    by code_simp
  have u: "\<not> model_label ''Success: Yes'' \<and> \<not> category_label ''Success: Yes'' \<and>
      \<not> language_label ''Success: Yes'' \<and> \<not> temperature_label ''Success: Yes'' \<and>
      success_label ''Success: Yes''"
    by code_simp
  have n: "\<not> model_label ''SUCCESS: yes'' \<and> \<not> category_label ''SUCCESS: yes'' \<and>
      \<not> language_label ''SUCCESS: yes'' \<and> \<not> temperature_label ''SUCCESS: yes'' \<and>
      \<not> success_label ''SUCCESS: yes''"
    by code_simp
  have v1: "strip (after_colon ''model: gpt-4: turbo'') = ''gpt-4: turbo''"
    and v2: "strip (after_colon ''Category: reasoning'') = ''reasoning''"
    and v3: "strip (after_colon ''the language: en'') = ''en''"
    and v4: "py_float (strip (after_colon ''Temperature: 0.7'')) = Inr (Finite False 7 (- 1))"
    and v5: "lower (strip (after_colon ''Success: Yes'')) = ''yes''"
    by code_simp+
  have d: "strip ''  model: gpt-4: turbo  '' = ''model'' @ '':'' @ '' gpt-4: turbo'' \<and>
      CHR '':'' \<notin> set ''model''"
    unfolding s1 by simp
  from label_spellings [of "''  model: gpt-4: turbo  ''" "[(''model'', PStr ''old'')]",
      THEN conjunct1, unfolded s1] m
  have "parse_line [(''model'', PStr ''old'')] ''  model: gpt-4: turbo  '' =
      Inr (AList.update ''model'' (PStr (strip (after_colon ''model: gpt-4: turbo'')))
             [(''model'', PStr ''old'')])"
    by (rule mp)
  then have 1: "parse_line [(''model'', PStr ''old'')] ''  model: gpt-4: turbo  '' =
     Inr [(''model'', PStr ''gpt-4: turbo'')]"
    unfolding v1 by simp
  from label_spellings [of "''Category: reasoning''" "[]", THEN conjunct2, THEN conjunct1, unfolded s2] c
  have "parse_line [] ''Category: reasoning'' =
      Inr (AList.update ''category'' (PStr (strip (after_colon ''Category: reasoning''))) [])"
    by (rule mp)
  then have 2: "parse_line [] ''Category: reasoning'' = Inr [(''category'', PStr ''reasoning'')]"
    unfolding v2 by simp
  from label_spellings [of "''the language: en''" "[]", THEN conjunct2, THEN conjunct2, THEN conjunct1, unfolded s3] g
  have "parse_line [] ''the language: en'' =
      Inr (AList.update ''language'' (PStr (strip (after_colon ''the language: en''))) [])"
    by (rule mp)
  then have 3: "parse_line [] ''the language: en'' = Inr [(''language'', PStr ''en'')]"
    unfolding v3 by simp
  from label_spellings [of "''Temperature: 0.7''" "[]", THEN conjunct2, THEN conjunct2, THEN conjunct2, THEN conjunct1, unfolded s4] t
  have "parse_line [] ''Temperature: 0.7'' =
      Inr (case py_float (strip (after_colon ''Temperature: 0.7'')) of
             Inl e \<Rightarrow> []
           | Inr x \<Rightarrow> AList.update ''temperature'' (PFloat x) [])"
    by (rule mp)
  then have 4: "parse_line [] ''Temperature: 0.7'' =
      Inr [(''temperature'', PFloat (Finite False 7 (- 1)))]"
    unfolding v4 by simp
  from label_spellings [of "''Success: Yes''" "[]", THEN conjunct2, THEN conjunct2, THEN conjunct2, THEN conjunct2, THEN conjunct1, unfolded s5] u
  have "parse_line [] ''Success: Yes'' =
      Inr (AList.update ''success''
             (PInt (if lower (strip (after_colon ''Success: Yes'')) \<in>
                        set [''true'', ''1'', ''yes'', ''success''] then 1 else 0)) [])"
    by (rule mp)
  then have 5: "parse_line [] ''Success: Yes'' = Inr [(''success'', PInt 1)]"
    unfolding v5 by simp
  from label_spellings [of "''SUCCESS: yes''" "[(''model'', PStr ''m'')]", THEN conjunct2, THEN conjunct2, THEN conjunct2, THEN conjunct2, THEN conjunct2, THEN conjunct1, unfolded s6] n
  have 6: "parse_line [(''model'', PStr ''m'')] ''SUCCESS: yes'' = Inr [(''model'', PStr ''m'')]"
    by (rule mp)
  from label_spellings [of "''  model: gpt-4: turbo  ''" "[]", THEN conjunct2, THEN conjunct2, THEN conjunct2, THEN conjunct2, THEN conjunct2, THEN conjunct2, rule_format, OF d]
  have 7: "after_colon (strip ''  model: gpt-4: turbo  '') = '' gpt-4: turbo''" .
  from 1 2 3 4 5 6 7 show ?thesis by blast
qed

text \<open>
  The keys of the record of a block, read off the lines of the block.
\<close>

lemma parse_line_temperature:
  "parse_line test l = Inr t \<Longrightarrow>
     has_key ''temperature'' t \<longleftrightarrow>
       has_key ''temperature'' test \<or>
       (\<not> model_label (strip l) \<and> \<not> category_label (strip l) \<and> \<not> language_label (strip l) \<and>
        temperature_label (strip l) \<and> \<not> isl (py_float (strip (after_colon (strip l)))))"
  by (auto simp: parse_line_eq Let_def has_key_update split: if_splits sum.splits)

lemma parse_lines_key:
  assumes step: "\<And>test l t. parse_line test l = Inr t \<Longrightarrow> has_key k t \<longleftrightarrow> has_key k test \<or> P l"
  shows "parse_lines test ls = Inr t \<Longrightarrow> has_key k t \<longleftrightarrow> has_key k test \<or> (\<exists>l\<in>set ls. P l)"
proof (induction ls arbitrary: test)
  case Nil
  then show ?case by simp
next
  case (Cons l ls)
  obtain t1 where t1: "parse_line test l = Inr t1" using parse_line_returns by blast
  with Cons.prems have "parse_lines t1 ls = Inr t" by simp
  then have "has_key k t \<longleftrightarrow> has_key k t1 \<or> (\<exists>l\<in>set ls. P l)" by (rule Cons.IH)
  with step [OF t1] show ?case by auto
qed

lemma parse_block_keys:
  assumes "parse_block b = Inr t"
  shows "has_key ''model'' t \<longleftrightarrow> (\<exists>l\<in>set (split_str [LF] b). model_label (strip l))"
    and "has_key ''category'' t \<longleftrightarrow>
      (\<exists>l\<in>set (split_str [LF] b). \<not> model_label (strip l) \<and> category_label (strip l))"
    and "has_key ''temperature'' t \<longleftrightarrow>
      (\<exists>l\<in>set (split_str [LF] b).
         \<not> model_label (strip l) \<and> \<not> category_label (strip l) \<and> \<not> language_label (strip l) \<and>
         temperature_label (strip l) \<and> \<not> isl (py_float (strip (after_colon (strip l)))))"
proof -
  have e: "\<not> has_key k []" for k by (simp add: has_key_def)
  from assms have p: "parse_lines [] (split_str [LF] b) = Inr t" by (simp add: parse_block_def)
  show "has_key ''model'' t \<longleftrightarrow> (\<exists>l\<in>set (split_str [LF] b). model_label (strip l))"
    using parse_lines_key [where k = "''model''" and P = "\<lambda>l. model_label (strip l)", OF parse_line_model p] e
    by simp
  show "has_key ''category'' t \<longleftrightarrow>
      (\<exists>l\<in>set (split_str [LF] b). \<not> model_label (strip l) \<and> category_label (strip l))"
    using parse_lines_key [where k = "''category''"
        and P = "\<lambda>l. \<not> model_label (strip l) \<and> category_label (strip l)", OF parse_line_category p] e
    by simp
  show "has_key ''temperature'' t \<longleftrightarrow>
      (\<exists>l\<in>set (split_str [LF] b).
         \<not> model_label (strip l) \<and> \<not> category_label (strip l) \<and> \<not> language_label (strip l) \<and>
         temperature_label (strip l) \<and> \<not> isl (py_float (strip (after_colon (strip l)))))"
    using parse_lines_key [where k = "''temperature''"
        and P = "\<lambda>l. \<not> model_label (strip l) \<and> \<not> category_label (strip l) \<and> \<not> language_label (strip l) \<and>
         temperature_label (strip l) \<and> \<not> isl (py_float (strip (after_colon (strip l))))",
        OF parse_line_temperature p] e
    by simp
qed

text \<open>
  C1, as the claim states it, fails: the gate tests that the keys are there, not that the
  values are non-empty. The block with the lines \<^verbatim>\<open>Model:\<close> and \<^verbatim>\<open>Category: x\<close> gives a
  record whose model is the empty string, and the record is in the table.
\<close>

theorem empty_model_counterexample:
  "parse_text_log (file_with_text (''Model:'' @ [LF] @ ''Category: x''))
       \<lparr>path_str = ''log.txt'', suffix = ''.txt''\<rparr> =
     Inr (Some (DataFrame [PDict [(''model'', PStr []), (''category'', PStr ''x'')]]))"
proof -
  have "parse_blocks [] (blocks (universal_newlines (''Model:'' @ [LF] @ ''Category: x''))) =
      Inr [[(''model'', PStr []), (''category'', PStr ''x'')]]"
    by code_simp
  then show ?thesis
    by (simp add: parse_text_log_def parse_text_log_try_def open_read_def file_with_text_def)
qed

text \<open>
  C1, amended. Every block yields a record, without an exception; the table holds, in the
  order of the blocks, exactly the records that have the keys \<^verbatim>\<open>model\<close> and \<^verbatim>\<open>category\<close>,
  and \<^verbatim>\<open>None\<close> is returned when there is none. A record has the key \<^verbatim>\<open>model\<close> exactly when
  a line of its block contains \<^verbatim>\<open>Model:\<close> or \<^verbatim>\<open>model:\<close>, and the key \<^verbatim>\<open>category\<close> exactly
  when a line without those contains \<^verbatim>\<open>Category:\<close> or \<^verbatim>\<open>category:\<close>; the value may be
  empty.
\<close>

theorem records_kept:
  "decoded w p = Inr c \<Longrightarrow>
     \<exists>recs. map parse_block (blocks (universal_newlines c)) = map Inr recs \<and>
       parse_text_log w p =
         Inr (let kept = filter (\<lambda>t. has_key ''model'' t \<and> has_key ''category'' t) recs
              in if kept \<noteq> [] then Some (DataFrame (map PDict kept)) else None) \<and>
       (\<forall>b t. parse_block b = Inr t \<longrightarrow>
          (has_key ''model'' t \<longleftrightarrow> (\<exists>l\<in>set (split_str [LF] b). model_label (strip l))) \<and>
          (has_key ''category'' t \<longleftrightarrow>
             (\<exists>l\<in>set (split_str [LF] b). \<not> model_label (strip l) \<and> category_label (strip l))))"
proof -
  assume c: "decoded w p = Inr c"
  let ?bs = "blocks (universal_newlines c)"
  obtain recs where m: "map parse_block ?bs = map Inr recs"
    and d: "parse_blocks [] ?bs =
      Inr ([] @ filter (\<lambda>t. has_key ''model'' t \<and> has_key ''category'' t) recs)"
    using parse_blocks_append [of ?bs "[]"] by blast
  have "parse_text_log w p =
         Inr (let kept = filter (\<lambda>t. has_key ''model'' t \<and> has_key ''category'' t) recs
              in if kept \<noteq> [] then Some (DataFrame (map PDict kept)) else None)"
    by (simp add: parse_text_log_def parse_text_log_try_def open_read_def c d Let_def)
  with m parse_block_keys(1,2) show ?thesis by blast
qed

theorem records_kept_witness:
  "parse_text_log
       (file_with_text (''Model: a'' @ [LF] @ ''Category: b'' @ [LF, LF] @ ''Model: only'' @ [LF, LF] @
                        ''Category: c'' @ [LF] @ ''model: d''))
       \<lparr>path_str = ''log.txt'', suffix = ''.txt''\<rparr> =
     Inr (Some (DataFrame [PDict [(''model'', PStr ''a''), (''category'', PStr ''b'')],
                           PDict [(''category'', PStr ''c''), (''model'', PStr ''d'')]]))"
proof -
  let ?t = "''Model: a'' @ [LF] @ ''Category: b'' @ [LF, LF] @ ''Model: only'' @ [LF, LF] @
            ''Category: c'' @ [LF] @ ''model: d''"
  let ?p = "\<lparr>path_str = ''log.txt'', suffix = ''.txt''\<rparr>"
  let ?r1 = "[(''model'', PStr ''a''), (''category'', PStr ''b'')]"
  let ?r2 = "[(''model'', PStr ''only'')]"
  let ?r3 = "[(''category'', PStr ''c''), (''model'', PStr ''d'')]"
  have "decoded (file_with_text ?t) ?p = Inr ?t" by (simp add: file_with_text_def)
  from records_kept [OF this] obtain recs where
    m: "map parse_block (blocks (universal_newlines ?t)) = map Inr recs"
    and r: "parse_text_log (file_with_text ?t) ?p =
         Inr (let kept = filter (\<lambda>t. has_key ''model'' t \<and> has_key ''category'' t) recs
              in if kept \<noteq> [] then Some (DataFrame (map PDict kept)) else None)"
    by blast
  have "map parse_block (blocks (universal_newlines ?t)) = [Inr ?r1, Inr ?r2, Inr ?r3]"
    by code_simp
  with m have "(map Inr recs :: (exn + pydict) list) = [Inr ?r1, Inr ?r2, Inr ?r3]"
    by (rule trans [OF sym])
  then have "recs = [?r1, ?r2, ?r3]" by (auto simp: map_eq_Cons_conv)
  with r show ?thesis by (simp add: has_key_def)
qed

text \<open>
  C5, as the claim states it, fails: a line whose temperature does not parse leaves the
  record alone, so a temperature assigned by another line of the same block stays. The
  block below has the line \<^verbatim>\<open>Temperature: abc\<close>, and its record has the temperature 0.5.
\<close>

theorem temperature_kept_counterexample:
  "parse_block (''Model: m'' @ [LF] @ ''Category: c'' @ [LF] @ ''Temperature: 0.5'' @ [LF] @
                ''Temperature: abc'') =
     Inr [(''model'', PStr ''m''), (''category'', PStr ''c''),
          (''temperature'', PFloat (Finite False 5 (- 1)))] \<and>
   py_float ''abc'' = Inl (ValueError ''could not convert string to float'')"
  by code_simp

text \<open>
  C5, amended. A line that reaches the temperature branch with a value that \<^verbatim>\<open>float\<close>
  rejects changes nothing: no field is assigned, no zero is stored, no exception leaves the
  line. The record of a block has the key \<^verbatim>\<open>temperature\<close> exactly when some line of the
  block reaches the temperature branch with a value that parses. Whether the record is
  appended depends on the keys \<^verbatim>\<open>model\<close> and \<^verbatim>\<open>category\<close> alone.
\<close>

theorem unparsed_temperature:
  "(\<not> model_label (strip l) \<and> \<not> category_label (strip l) \<and> \<not> language_label (strip l) \<and>
    temperature_label (strip l) \<and> isl (py_float (strip (after_colon (strip l)))) \<longrightarrow>
      parse_line test l = Inr test) \<and>
   (parse_block b = Inr t \<longrightarrow>
      (has_key ''temperature'' t \<longleftrightarrow>
         (\<exists>l\<in>set (split_str [LF] b).
            \<not> model_label (strip l) \<and> \<not> category_label (strip l) \<and> \<not> language_label (strip l) \<and>
            temperature_label (strip l) \<and> \<not> isl (py_float (strip (after_colon (strip l))))))) \<and>
   (parse_block b = Inr t \<longrightarrow>
      parse_blocks data (b # bs) =
        parse_blocks (if has_key ''model'' t \<and> has_key ''category'' t then data @ [t] else data) bs)"
proof (intro conjI impI)
  assume "\<not> model_label (strip l) \<and> \<not> category_label (strip l) \<and> \<not> language_label (strip l) \<and>
    temperature_label (strip l) \<and> isl (py_float (strip (after_colon (strip l))))"
  then show "parse_line test l = Inr test"
    by (cases "py_float (strip (after_colon (strip l)))") (simp_all add: parse_line_eq Let_def)
next
  assume "parse_block b = Inr t"
  then show "has_key ''temperature'' t \<longleftrightarrow>
         (\<exists>l\<in>set (split_str [LF] b).
            \<not> model_label (strip l) \<and> \<not> category_label (strip l) \<and> \<not> language_label (strip l) \<and>
            temperature_label (strip l) \<and> \<not> isl (py_float (strip (after_colon (strip l)))))"
    by (rule parse_block_keys(3))
next
  assume "parse_block b = Inr t"
  then show "parse_blocks data (b # bs) =
        parse_blocks (if has_key ''model'' t \<and> has_key ''category'' t then data @ [t] else data) bs"
    by (simp only: parse_blocks.simps sum.case)
qed

theorem unparsed_temperature_witness:
  "parse_line [(''model'', PStr ''m'')] ''Temperature: abc'' = Inr [(''model'', PStr ''m'')] \<and>
   parse_block (''Model: m'' @ [LF] @ ''Category: c'' @ [LF] @ ''Temperature: abc'') =
     Inr [(''model'', PStr ''m''), (''category'', PStr ''c'')] \<and>
   (has_key ''temperature'' [(''model'', PStr ''m''), (''category'', PStr ''c'')] \<longleftrightarrow> False) \<and>
   parse_blocks [] [''Model: m'' @ [LF] @ ''Category: c'' @ [LF] @ ''Temperature: abc''] =
     Inr [[(''model'', PStr ''m''), (''category'', PStr ''c'')]]"
proof -
  let ?l = "''Temperature: abc''"
  let ?b = "''Model: m'' @ [LF] @ ''Category: c'' @ [LF] @ ''Temperature: abc''"
  let ?t = "[(''model'', PStr ''m''), (''category'', PStr ''c'')]"
  note T = unparsed_temperature [of ?l "[(''model'', PStr ''m'')]" ?b ?t "[]" "[]"]
  have h: "\<not> model_label (strip ?l) \<and> \<not> category_label (strip ?l) \<and> \<not> language_label (strip ?l) \<and>
    temperature_label (strip ?l) \<and> isl (py_float (strip (after_colon (strip ?l))))"
    by code_simp
  from T [THEN conjunct1] h
  have 1: "parse_line [(''model'', PStr ''m'')] ?l = Inr [(''model'', PStr ''m'')]"
    by (rule mp)
  have 2: "parse_block ?b = Inr ?t" by code_simp
  have n: "\<not> (\<exists>l\<in>set (split_str [LF] ?b).
            \<not> model_label (strip l) \<and> \<not> category_label (strip l) \<and> \<not> language_label (strip l) \<and>
            temperature_label (strip l) \<and> \<not> isl (py_float (strip (after_colon (strip l)))))"
    by code_simp
  from T [THEN conjunct2, THEN conjunct1, THEN mp, OF 2] n
  have 3: "has_key ''temperature'' ?t \<longleftrightarrow> False" by simp
  from T [THEN conjunct2, THEN conjunct2, THEN mp, OF 2]
  have 4: "parse_blocks [] [?b] = Inr [?t]" by (simp add: has_key_def)
  from 1 2 3 4 show ?thesis by blast
qed

text \<open>
  Every block is stripped, not empty, and holds no empty line: a piece cut off by
  \<^verbatim>\<open>split\<close> ends before the leftmost separator.
\<close>

lemma find_str_occurs: "\<exists>j. find_str sub (ps @ sub @ rest) = Some j \<and> j \<le> length ps"
proof (induction ps)
  case Nil
  show ?case
  proof (cases "sub @ rest")
    case Nil
    then show ?thesis by simp
  next
    case (Cons a list)
    then have "prefix sub (a # list)" by (metis prefixI)
    with Cons show ?thesis by simp
  qed
next
  case (Cons c ps)
  then show ?case by auto
qed

lemma take_no_sep:
  assumes "find_str sep s = Some i" and "sep \<noteq> []"
  shows "\<not> contains sep (take i s)"
proof
  assume "contains sep (take i s)"
  then obtain ps ss where t: "take i s = ps @ sep @ ss"
    by (auto simp: contains_sublist sublist_def)
  have "s = take i s @ drop i s" by simp
  then have "s = ps @ sep @ (ss @ drop i s)" by (simp add: t)
  then obtain j where "find_str sep s = Some j" "j \<le> length ps"
    using find_str_occurs [of sep ps "ss @ drop i s"] by auto
  with assms(1) have "i \<le> length ps" by simp
  moreover have "length ps + length sep + length ss \<le> i"
    using arg_cong [OF t, of length] by simp
  moreover have "0 < length sep" using assms(2) by simp
  ultimately show False by arith
qed

lemma split_pieces: "sep \<noteq> [] \<Longrightarrow> p \<in> set (split_str sep s) \<Longrightarrow> \<not> contains sep p"
proof (induction sep s rule: split_str.induct)
  case (1 sep s)
  show ?case
  proof (cases "find_str sep s")
    case None
    with "1.prems" have "p = s" by (subst (asm) split_str.simps) simp
    with None show ?thesis by (simp add: contains_def)
  next
    case (Some i)
    with "1.prems" have "p = take i s \<or> p \<in> set (split_str sep (drop (i + length sep) s))"
      by (subst (asm) split_str.simps) simp
    then show ?thesis
    proof
      assume "p = take i s"
      with take_no_sep [OF Some "1.prems"(1)] show ?thesis by simp
    next
      assume "p \<in> set (split_str sep (drop (i + length sep) s))"
      with "1.IH" [OF "1.prems"(1) Some "1.prems"(1)] show ?thesis .
    qed
  qed
qed

lemma strip_sublist: "\<exists>a b. s = a @ strip s @ b"
proof -
  let ?d = "dropWhile isspace s"
  let ?e = "dropWhile isspace (rev ?d)"
  have a: "rev ?d = takeWhile isspace (rev ?d) @ ?e" by simp
  have "?d = rev (rev ?d)" by simp
  also have "\<dots> = rev (takeWhile isspace (rev ?d) @ ?e)"
    using arg_cong [OF a, of rev] .
  also have "\<dots> = rev ?e @ rev (takeWhile isspace (rev ?d))" by (rule rev_append)
  finally have "?d = rev ?e @ rev (takeWhile isspace (rev ?d))" .
  moreover have "s = takeWhile isspace s @ ?d" by simp
  ultimately have "s = takeWhile isspace s @ rev ?e @ rev (takeWhile isspace (rev ?d))"
    by simp
  then show ?thesis unfolding strip_def by blast
qed

lemma contains_strip: "contains sub (strip s) \<Longrightarrow> contains sub s"
proof -
  assume "contains sub (strip s)"
  then obtain ps ss where 1: "strip s = ps @ sub @ ss"
    by (auto simp: contains_sublist sublist_def)
  obtain a b where "s = a @ strip s @ b" using strip_sublist by blast
  with 1 have "s = (a @ ps) @ sub @ (ss @ b)" by simp
  then show ?thesis unfolding contains_sublist sublist_def by blast
qed

lemma trimmed_strip:
  assumes "strip s \<noteq> []"
  shows "trimmed (strip s)"
proof -
  let ?d = "dropWhile isspace s"
  let ?e = "dropWhile isspace (rev ?d)"
  from assms have e: "?e \<noteq> []" by (simp add: strip_def)
  have d: "?d \<noteq> []"
  proof
    assume "?d = []"
    then have "?e = []" by (simp only: rev.simps dropWhile.simps)
    with e show False ..
  qed
  have 1: "\<not> isspace (hd ?e)" using e by (rule hd_dropWhile)
  have 2: "\<not> isspace (hd ?d)" using d by (rule hd_dropWhile)
  have a: "rev ?d = takeWhile isspace (rev ?d) @ ?e" by simp
  have "last (takeWhile isspace (rev ?d) @ ?e) = last ?e" using e by (rule last_appendR)
  with arg_cong [OF a, of last] have "last (rev ?d) = last ?e" by (rule trans)
  moreover have "last (rev ?d) = hd ?d" by (rule last_rev)
  ultimately have 3: "last ?e = hd ?d" by (rule trans [OF sym])
  have "hd (rev ?e) = last ?e" by (rule hd_rev)
  moreover have "last (rev ?e) = hd ?e" by (rule last_rev)
  ultimately have "hd (strip s) = hd ?d" and "last (strip s) = hd ?e"
    using 3 by (simp_all only: strip_def)
  with 1 2 assms show ?thesis by (simp only: trimmed_def simp_thms)
qed

lemma blocks_trimmed:
  assumes "b \<in> set (blocks c)"
  shows "trimmed b \<and> \<not> contains [LF, LF] b"
proof -
  from assms obtain p where p: "p \<in> set (split_str [LF, LF] c)" "strip p \<noteq> []" "b = strip p"
    by (auto simp: blocks_def)
  have "\<not> contains [LF, LF] p" using p(1) by (intro split_pieces) simp_all
  then have "\<not> contains [LF, LF] (strip p)" using contains_strip by blast
  with trimmed_strip [OF p(2)] p(3) show ?thesis by simp
qed

text \<open>
  The text mode of \<^verbatim>\<open>open\<close>: the text that \<^verbatim>\<open>f.read()\<close> returns holds no carriage return;
  a text without carriage returns is returned as it is; the translation goes through a
  text piece by piece, unless the cut falls between a CR and its LF.
\<close>

lemma universal_newlines_no_CR: "CR \<notin> set (universal_newlines t)"
  by (induction t rule: universal_newlines.induct) auto

lemma universal_newlines_append:
  "\<not> (a \<noteq> [] \<and> last a = CR \<and> s \<noteq> [] \<and> hd s = LF) \<Longrightarrow>
     universal_newlines (a @ s) = universal_newlines a @ universal_newlines s"
proof (induction a rule: universal_newlines.induct)
  case 1
  show ?case by simp
next
  case (2 c)
  then show ?case by (cases s) auto
next
  case (3 c d cs)
  then show ?case by (auto split: if_splits)
qed

lemma universal_newlines_id: "CR \<notin> set t \<Longrightarrow> universal_newlines t = t"
  by (induction t rule: universal_newlines.induct) auto

lemma universal_newlines_crlf:
  "universal_newlines (a @ [CR, LF] @ t) = universal_newlines a @ [LF] @ universal_newlines t"
proof -
  have "universal_newlines (a @ [CR, LF] @ t) = universal_newlines a @ universal_newlines ([CR, LF] @ t)"
    by (rule universal_newlines_append) simp
  also have "universal_newlines ([CR, LF] @ t) = universal_newlines [CR, LF] @ universal_newlines t"
    by (rule universal_newlines_append) simp
  finally show ?thesis by simp
qed

lemma universal_newlines_cr:
  assumes "t = [] \<or> hd t \<noteq> LF"
  shows "universal_newlines (a @ [CR] @ t) = universal_newlines a @ [LF] @ universal_newlines t"
proof -
  have "universal_newlines (a @ [CR] @ t) = universal_newlines a @ universal_newlines ([CR] @ t)"
    by (rule universal_newlines_append) simp
  also have "universal_newlines ([CR] @ t) = universal_newlines [CR] @ universal_newlines t"
    using assms by (intro universal_newlines_append) auto
  finally show ?thesis by simp
qed

text \<open>
  The splitting of a text whose blocks are separated by empty lines. White space in front
  of the text is ignored; a stripped piece \<open>b\<close> holding no empty line, followed by white
  space that holds an empty line, is the first block, and the blocks of the rest follow;
  such a piece followed by white space only is the single block. Every block yields one
  record, and every block is stripped, not empty and free of empty lines. The text mode
  reads CR LF and a CR on its own as LF and leaves every other character as it is.
\<close>

theorem blocks_split:
  "(list_all isspace w \<longrightarrow> blocks (w @ rest) = blocks rest) \<and>
   (trimmed b \<and> \<not> contains [LF, LF] b \<and> list_all isspace sep \<and> contains [LF, LF] sep \<longrightarrow>
      blocks (b @ sep @ rest) = b # blocks rest) \<and>
   (trimmed b \<and> \<not> contains [LF, LF] b \<and> list_all isspace w \<longrightarrow> blocks (b @ w) = [b]) \<and>
   CR \<notin> set (universal_newlines c) \<and>
   (\<exists>recs. map parse_block (blocks c) = map Inr recs) \<and>
   (\<forall>x\<in>set (blocks c). trimmed x \<and> \<not> contains [LF, LF] x) \<and>
   (CR \<notin> set c \<longrightarrow> universal_newlines c = c) \<and>
   universal_newlines (c @ [CR, LF] @ rest) =
     universal_newlines c @ [LF] @ universal_newlines rest \<and>
   (rest = [] \<or> hd rest \<noteq> LF \<longrightarrow>
      universal_newlines (c @ [CR] @ rest) =
        universal_newlines c @ [LF] @ universal_newlines rest)"
proof (intro conjI impI ballI)
  show "list_all isspace w \<Longrightarrow> blocks (w @ rest) = blocks rest"
    by (rule blocks_ws_prefix)
  show "trimmed b \<and> \<not> contains [LF, LF] b \<and> list_all isspace sep \<and> contains [LF, LF] sep \<Longrightarrow>
      blocks (b @ sep @ rest) = b # blocks rest"
    using blocks_separator by blast
  show "trimmed b \<and> \<not> contains [LF, LF] b \<and> list_all isspace w \<Longrightarrow> blocks (b @ w) = [b]"
    using blocks_single by blast
  show "CR \<notin> set (universal_newlines c)"
    by (rule universal_newlines_no_CR)
  show "\<exists>recs. map parse_block (blocks c) = map Inr recs"
    using parse_blocks_append [of "blocks c" "[]"] by blast
  show "trimmed x" if "x \<in> set (blocks c)" for x
    using that blocks_trimmed by blast
  show "\<not> contains [LF, LF] x" if "x \<in> set (blocks c)" for x
    using that blocks_trimmed by blast
  show "CR \<notin> set c \<Longrightarrow> universal_newlines c = c"
    by (rule universal_newlines_id)
  show "universal_newlines (c @ [CR, LF] @ rest) =
     universal_newlines c @ [LF] @ universal_newlines rest"
    by (rule universal_newlines_crlf)
  show "rest = [] \<or> hd rest \<noteq> LF \<Longrightarrow>
      universal_newlines (c @ [CR] @ rest) =
        universal_newlines c @ [LF] @ universal_newlines rest"
    by (rule universal_newlines_cr)
qed

theorem blocks_split_witness:
  "blocks ([LF] @ '' '' @ ''Model: a'' @ [LF] @ ''Category: b'' @ [LF, LF, LF] @ ''Model: c'' @ '' '' @ [LF]) =
     [''Model: a'' @ [LF] @ ''Category: b'', ''Model: c''] \<and>
   universal_newlines (''a'' @ [CR, LF, CR, LF] @ ''b'') = ''a'' @ [LF, LF] @ ''b''"
proof -
  let ?w = "[LF] @ '' ''"
  let ?b1 = "''Model: a'' @ [LF] @ ''Category: b''"
  let ?sep = "[LF, LF, LF]"
  let ?b2 = "''Model: c''"
  let ?w2 = "'' '' @ [LF]"
  have w: "list_all isspace ?w" and w2: "list_all isspace ?w2" and s: "list_all isspace ?sep"
    by code_simp+
  have b1: "trimmed ?b1 \<and> \<not> contains [LF, LF] ?b1 \<and> list_all isspace ?sep \<and> contains [LF, LF] ?sep"
    by code_simp
  have b2: "trimmed ?b2 \<and> \<not> contains [LF, LF] ?b2 \<and> list_all isspace ?w2"
    by code_simp
  from blocks_split [of ?w "?b1 @ ?sep @ ?b2 @ ?w2", THEN conjunct1] w
  have 1: "blocks (?w @ ?b1 @ ?sep @ ?b2 @ ?w2) = blocks (?b1 @ ?sep @ ?b2 @ ?w2)"
    by (rule mp)
  from blocks_split [of _ "?b2 @ ?w2" ?b1 ?sep, THEN conjunct2, THEN conjunct1] b1
  have 2: "blocks (?b1 @ ?sep @ ?b2 @ ?w2) = ?b1 # blocks (?b2 @ ?w2)"
    by (rule mp)
  from blocks_split [of ?w2 _ ?b2, THEN conjunct2, THEN conjunct2, THEN conjunct1] b2
  have 3: "blocks (?b2 @ ?w2) = [?b2]"
    by (rule mp)
  have 4: "universal_newlines (''a'' @ [CR, LF, CR, LF] @ ''b'') = ''a'' @ [LF, LF] @ ''b''"
    by code_simp
  from 1 2 3 have "blocks (?w @ ?b1 @ ?sep @ ?b2 @ ?w2) = [?b1, ?b2]"
    by (simp only:)
  then have "blocks ([LF] @ '' '' @ ''Model: a'' @ [LF] @ ''Category: b'' @ [LF, LF, LF] @ ''Model: c'' @ '' '' @ [LF]) =
     [''Model: a'' @ [LF] @ ''Category: b'', ''Model: c'']"
    by (simp only: append_assoc)
  from this 4 show ?thesis by (rule conjI)
qed

text \<open>
  C7. The code does what the claim says wherever the blank lines between the blocks are
  empty lines, as the theorem above shows; it does not where a blank line holds white
  space, although its own comment says that the blocks are separated by blank lines. The
  text below has a middle line that is a single blank: the code reads it as one block,
  whose record has both keys and is in the table. Split at the blank line it would be two
  blocks with one key each, and there would be no table.
\<close>

theorem whitespace_line_not_separator:
  "blocks (''Model: a'' @ [LF] @ '' '' @ [LF] @ ''Category: b'') =
     [''Model: a'' @ [LF] @ '' '' @ [LF] @ ''Category: b''] \<and>
   parse_text_log (file_with_text (''Model: a'' @ [LF] @ '' '' @ [LF] @ ''Category: b''))
       \<lparr>path_str = ''log.txt'', suffix = ''.txt''\<rparr> =
     Inr (Some (DataFrame [PDict [(''model'', PStr ''a''), (''category'', PStr ''b'')]]))"
proof -
  let ?t = "''Model: a'' @ [LF] @ '' '' @ [LF] @ ''Category: b''"
  have 1: "blocks ?t = [?t]" by code_simp
  have "parse_blocks [] (blocks (universal_newlines ?t)) =
      Inr [[(''model'', PStr ''a''), (''category'', PStr ''b'')]]"
    by code_simp
  then have 2: "parse_text_log (file_with_text ?t) \<lparr>path_str = ''log.txt'', suffix = ''.txt''\<rparr> =
     Inr (Some (DataFrame [PDict [(''model'', PStr ''a''), (''category'', PStr ''b'')]]))"
    by (simp add: parse_text_log_def parse_text_log_try_def open_read_def file_with_text_def)
  from 1 2 show ?thesis by (rule conjI)
qed

text \<open>
  The first label of the chain that a line contains, and what a colon in the value does to
  \<^verbatim>\<open>float\<close>: a value holding a colon never parses, and a line with a temperature label and
  a success label has a colon behind its first colon.
\<close>

lemma first_label_eq:
  "first_label line =
     (if model_label line then Some ''model''
      else if category_label line then Some ''category''
      else if language_label line then Some ''language''
      else if temperature_label line then Some ''temperature''
      else if success_label line then Some ''success''
      else None)"
  by (simp add: first_label_def labels_def)

lemma in_set_dropWhile: "x \<in> set xs \<Longrightarrow> \<not> P x \<Longrightarrow> x \<in> set (dropWhile P xs)"
  by (induction xs) auto

lemma take_sign_colon: "CHR '':'' \<in> set s \<Longrightarrow> CHR '':'' \<in> set (snd (take_sign s))"
  by (cases s) (auto simp: take_sign_def)

lemma lower_char_colon: "lower_char (CHR '':'') = CHR '':''"
  by (simp add: lower_char_def)

lemma lower_colon: "CHR '':'' \<in> set s \<Longrightarrow> CHR '':'' \<in> set (lower s)"
  using lower_char_colon by (force simp: lower_def)

lemma isdigit_colon: "\<not> isdigit (CHR '':'')"
  by (simp add: isdigit_def)

lemma parse_exponent_colon: "CHR '':'' \<in> set t \<Longrightarrow> parse_exponent t = None"
proof -
  assume "CHR '':'' \<in> set t"
  then have "CHR '':'' \<in> set (snd (take_sign t))" by (rule take_sign_colon)
  then have "\<not> list_all isdigit (snd (take_sign t))"
    using isdigit_colon by (auto simp: list_all_iff)
  then show ?thesis by (simp add: parse_exponent_def case_prod_beta)
qed

lemma strtod_colon:
  assumes "CHR '':'' \<in> set s"
  shows "strtod s = None"
proof -
  define r where "r = snd (take_sign s)"
  define r1 where "r1 = dropWhile isdigit r"
  define r2 where "r2 = (case r1 of [] \<Rightarrow> [] | c # t \<Rightarrow> if c = CHR ''.'' then dropWhile isdigit t else r1)"
  have r: "CHR '':'' \<in> set r" unfolding r_def using assms by (rule take_sign_colon)
  then have l: "CHR '':'' \<in> set (lower r)" by (rule lower_colon)
  have n: "lower r \<noteq> ''inf''" "lower r \<noteq> ''infinity''" "lower r \<noteq> ''nan''"
    using l by auto
  have c1: "CHR '':'' \<in> set r1" unfolding r1_def using r isdigit_colon by (rule in_set_dropWhile)
  have c2: "CHR '':'' \<in> set r2"
  proof (cases r1)
    case Nil
    with c1 show ?thesis by simp
  next
    case (Cons c t)
    show ?thesis
    proof (cases "c = CHR ''.''")
      case True
      with c1 Cons have "CHR '':'' \<in> set t" by auto
      then have "CHR '':'' \<in> set (dropWhile isdigit t)" using isdigit_colon by (rule in_set_dropWhile)
      with True Cons show ?thesis by (simp add: r2_def)
    next
      case False
      with c1 Cons show ?thesis by (simp add: r2_def)
    qed
  qed
  have e: "(case r2 of [] \<Rightarrow> a
            | c # t \<Rightarrow> if c = CHR ''e'' \<or> c = CHR ''E''
                        then (case parse_exponent t of None \<Rightarrow> None | Some e \<Rightarrow> g e)
                        else None) = None" for a :: "pyfloat option" and g
  proof (cases r2)
    case Nil
    with c2 show ?thesis by simp
  next
    case (Cons c t)
    show ?thesis
    proof (cases "c = CHR ''e'' \<or> c = CHR ''E''")
      case True
      with c2 Cons have "CHR '':'' \<in> set t" by auto
      then have "parse_exponent t = None" by (rule parse_exponent_colon)
      with True Cons show ?thesis by simp
    next
      case False
      with Cons show ?thesis by simp
    qed
  qed
  define fp where "fp = (case r1 of [] \<Rightarrow> [] | c # t \<Rightarrow> if c = CHR ''.'' then takeWhile isdigit t else [])"
  have "strtod s =
      (if lower r = ''inf'' \<or> lower r = ''infinity'' then Some (Infinity (fst (take_sign s)))
       else if lower r = ''nan'' then Some NaN
       else if takeWhile isdigit r = [] \<and> fp = [] then None
       else (case r2 of
               [] \<Rightarrow> Some (Finite (fst (take_sign s)) (digits_val (takeWhile isdigit r @ fp))
                            (- int (length fp)))
             | c # t \<Rightarrow>
                 if c = CHR ''e'' \<or> c = CHR ''E'' then
                   (case parse_exponent t of
                      None \<Rightarrow> None
                    | Some e \<Rightarrow> Some (Finite (fst (take_sign s)) (digits_val (takeWhile isdigit r @ fp))
                                      (e - int (length fp))))
                 else None))"
    by (simp only: strtod_def Let_def case_prod_beta r_def r1_def r2_def fp_def)
  also have "\<dots> = None"
    using n by (simp only: e if_False simp_thms if_cancel)
  finally show ?thesis .
qed

lemma py_float_colon:
  assumes "CHR '':'' \<in> set v"
  shows "isl (py_float v)"
proof -
  have a: "to_ascii (CHR '':'') = CHR '':''" by (simp add: to_ascii_def)
  have s: "\<not> c_isspace (CHR '':'')" by (simp add: c_isspace_def)
  from assms a have "CHR '':'' \<in> set (map to_ascii v)" by force
  then have "CHR '':'' \<in> set (filter (\<lambda>c. c \<noteq> CHR ''_'') (map to_ascii v))" by simp
  then have "CHR '':'' \<in> set (dropWhile c_isspace (filter (\<lambda>c. c \<noteq> CHR ''_'') (map to_ascii v)))"
    using s by (rule in_set_dropWhile)
  then have "CHR '':'' \<in> set (rev (dropWhile c_isspace (filter (\<lambda>c. c \<noteq> CHR ''_'') (map to_ascii v))))"
    by simp
  then have "CHR '':'' \<in> set (dropWhile c_isspace (rev (dropWhile c_isspace (filter (\<lambda>c. c \<noteq> CHR ''_'') (map to_ascii v)))))"
    using s by (rule in_set_dropWhile)
  then have "CHR '':'' \<in> set (rev (dropWhile c_isspace (rev (dropWhile c_isspace (filter (\<lambda>c. c \<noteq> CHR ''_'') (map to_ascii v))))))"
    by simp
  then have "strtod (rev (dropWhile c_isspace (rev (dropWhile c_isspace (filter (\<lambda>c. c \<noteq> CHR ''_'') (map to_ascii v)))))) = None"
    by (rule strtod_colon)
  then show ?thesis by (simp add: py_float_def Let_def)
qed

lemma first_colon_cases:
  assumes "(p @ L) @ CHR '':'' # s = before @ CHR '':'' # after" and "CHR '':'' \<notin> set before"
  shows "p @ L = before \<or> CHR '':'' \<in> set after"
proof -
  from assms(1) obtain us where
    "(p @ L = before @ us \<and> us @ CHR '':'' # s = CHR '':'' # after) \<or>
     ((p @ L) @ us = before \<and> CHR '':'' # s = us @ CHR '':'' # after)"
    by (auto simp only: append_eq_append_conv2)
  then show ?thesis
  proof
    assume a: "p @ L = before @ us \<and> us @ CHR '':'' # s = CHR '':'' # after"
    show ?thesis
    proof (cases us)
      case Nil
      with a show ?thesis by simp
    next
      case (Cons u us')
      with a have "after = us' @ CHR '':'' # s" by simp
      then show ?thesis by simp
    qed
  next
    assume a: "(p @ L) @ us = before \<and> CHR '':'' # s = us @ CHR '':'' # after"
    show ?thesis
    proof (cases us)
      case Nil
      with a show ?thesis by simp
    next
      case (Cons u us')
      with a have "u = CHR '':''" by simp
      with a Cons assms(2) show ?thesis by auto
    qed
  qed
qed

lemma two_labels_colon:
  assumes "contains (L1 @ '':'') line" and "contains (L2 @ '':'') line"
    and "L1 \<noteq> []" and "L2 \<noteq> []" and "last L1 \<noteq> last L2"
  shows "CHR '':'' \<in> set (after_colon line)"
proof -
  from assms(1) obtain p1 s1 where 1: "line = (p1 @ L1) @ CHR '':'' # s1"
    by (auto simp: contains_sublist sublist_def)
  from assms(2) obtain p2 s2 where 2: "line = (p2 @ L2) @ CHR '':'' # s2"
    by (auto simp: contains_sublist sublist_def)
  from 1 have "CHR '':'' \<in> set line" by simp
  then obtain before after where l: "line = before @ CHR '':'' # after"
    and n: "CHR '':'' \<notin> set before"
    using split_list_first [of "CHR '':''" line] by auto
  have ac: "after_colon line = after"
    using after_colon_append [OF n, of after] l by simp
  have "\<not> (p1 @ L1 = before \<and> p2 @ L2 = before)"
  proof
    assume "p1 @ L1 = before \<and> p2 @ L2 = before"
    then have "last (p1 @ L1) = last (p2 @ L2)" by simp
    with assms(3,4,5) show False by simp
  qed
  moreover have "p1 @ L1 = before \<or> CHR '':'' \<in> set after"
    using first_colon_cases [OF _ n, of p1 L1 s1 after] 1 l by simp
  moreover have "p2 @ L2 = before \<or> CHR '':'' \<in> set after"
    using first_colon_cases [OF _ n, of p2 L2 s2 after] 2 l by simp
  ultimately show ?thesis using ac by auto
qed

lemma temperature_success_colon:
  assumes "temperature_label line" and "success_label line"
  shows "CHR '':'' \<in> set (after_colon line)"
  using assms
    two_labels_colon [of "''Temperature''" line "''Success''"]
    two_labels_colon [of "''Temperature''" line "''success''"]
    two_labels_colon [of "''temperature''" line "''Success''"]
    two_labels_colon [of "''temperature''" line "''success''"]
  by auto

lemma strip_colon: "CHR '':'' \<in> set s \<Longrightarrow> CHR '':'' \<in> set (strip s)"
proof -
  assume a: "CHR '':'' \<in> set s"
  have n: "\<not> isspace (CHR '':'')" by (simp add: isspace_def)
  from a n have "CHR '':'' \<in> set (dropWhile isspace s)" by (rule in_set_dropWhile)
  then have "CHR '':'' \<in> set (rev (dropWhile isspace s))" by simp
  then have "CHR '':'' \<in> set (dropWhile isspace (rev (dropWhile isspace s)))"
    using n by (rule in_set_dropWhile)
  then show ?thesis by (simp add: strip_def)
qed

text \<open>
  C10, as the claim states it, fails: the line below contains the labels of the
  temperature and of the success flag; the temperature comes first in the chain, its value
  \<^verbatim>\<open>Success: yes\<close> is no float, and no field is assigned at all.
\<close>

theorem two_labels_counterexample:
  "temperature_label ''Temperature: Success: yes'' \<and>
   success_label ''Temperature: Success: yes'' \<and>
   first_label ''Temperature: Success: yes'' = Some ''temperature'' \<and>
   parse_line [] ''Temperature: Success: yes'' = Inr []"
  by code_simp

text \<open>
  C10, amended. A line changes at most one field, the one of the first label of the chain
  model, category, language, temperature, success that the stripped line contains; every
  other key keeps its value. When that label is model, category, language or success the
  field is assigned. When it is temperature the field is assigned only if the value is a
  float, and when the line also contains a success label the value holds a colon, is no
  float, and nothing is assigned. A line without a label changes nothing.
\<close>

theorem first_label_wins:
  "\<exists>test'. parse_line test l = Inr test' \<and>
     (case first_label (strip l) of
        None \<Rightarrow> test' = test
      | Some k \<Rightarrow>
          if k = ''temperature'' then
            (case py_float (strip (after_colon (strip l))) of
               Inl e \<Rightarrow> test' = test
             | Inr x \<Rightarrow> test' = AList.update k (PFloat x) test)
          else (\<exists>v. test' = AList.update k v test)) \<and>
     (\<forall>k. first_label (strip l) \<noteq> Some k \<longrightarrow> map_of test' k = map_of test k) \<and>
     (first_label (strip l) = Some ''temperature'' \<and> success_label (strip l) \<longrightarrow> test' = test)"
proof -
  let ?s = "strip l"
  let ?v = "strip (after_colon (strip l))"
  have ts: "isl (py_float ?v)" if "temperature_label ?s" "success_label ?s"
    using that by (intro py_float_colon strip_colon temperature_success_colon)
  consider (m) "model_label ?s"
    | (c) "\<not> model_label ?s" "category_label ?s"
    | (g) "\<not> model_label ?s" "\<not> category_label ?s" "language_label ?s"
    | (t) "\<not> model_label ?s" "\<not> category_label ?s" "\<not> language_label ?s" "temperature_label ?s"
    | (u) "\<not> model_label ?s" "\<not> category_label ?s" "\<not> language_label ?s"
          "\<not> temperature_label ?s" "success_label ?s"
    | (n) "\<not> model_label ?s" "\<not> category_label ?s" "\<not> language_label ?s"
          "\<not> temperature_label ?s" "\<not> success_label ?s"
    by blast
  then show ?thesis
  proof cases
    case m
    then have "parse_line test l = Inr (AList.update ''model'' (PStr ?v) test)"
      and "first_label ?s = Some ''model''"
      by (simp_all add: parse_line_eq Let_def first_label_eq)
    then show ?thesis by (auto simp: update_conv')
  next
    case c
    then have "parse_line test l = Inr (AList.update ''category'' (PStr ?v) test)"
      and "first_label ?s = Some ''category''"
      by (simp_all add: parse_line_eq Let_def first_label_eq)
    then show ?thesis by (auto simp: update_conv')
  next
    case g
    then have "parse_line test l = Inr (AList.update ''language'' (PStr ?v) test)"
      and "first_label ?s = Some ''language''"
      by (simp_all add: parse_line_eq Let_def first_label_eq)
    then show ?thesis by (auto simp: update_conv')
  next
    case t
    then have p: "parse_line test l =
        Inr (case py_float ?v of Inl e \<Rightarrow> test
             | Inr x \<Rightarrow> AList.update ''temperature'' (PFloat x) test)"
      and f: "first_label ?s = Some ''temperature''"
      by (simp_all add: parse_line_eq Let_def first_label_eq)
    show ?thesis
    proof (cases "py_float ?v")
      case (Inl e)
      with p f show ?thesis by simp
    next
      case (Inr x)
      with ts t(4) have "\<not> success_label ?s" by auto
      with p f Inr show ?thesis by (auto simp: update_conv')
    qed
  next
    case u
    then have "parse_line test l =
        Inr (AList.update ''success''
               (PInt (if lower ?v \<in> set [''true'', ''1'', ''yes'', ''success''] then 1 else 0)) test)"
      and "first_label ?s = Some ''success''"
      by (simp_all add: parse_line_eq Let_def first_label_eq)
    then show ?thesis by (auto simp: update_conv')
  next
    case n
    then have "parse_line test l = Inr test" and "first_label ?s = None"
      by (simp_all add: parse_line_eq Let_def first_label_eq)
    then show ?thesis by simp
  qed
qed

theorem first_label_wins_witness:
  "parse_line [(''success'', PInt 0)] ''Model: a Category: b Success: true'' =
     Inr [(''success'', PInt 0), (''model'', PStr ''a Category: b Success: true'')] \<and>
   parse_line [(''model'', PStr ''m'')] ''success: temperature: 1'' = Inr [(''model'', PStr ''m'')]"
proof -
  let ?l1 = "''Model: a Category: b Success: true''"
  let ?t1 = "[(''success'', PInt 0)]"
  let ?l2 = "''success: temperature: 1''"
  let ?t2 = "[(''model'', PStr ''m'')]"
  have f1: "first_label (strip ?l1) = Some ''model''" by code_simp
  have f2: "first_label (strip ?l2) = Some ''temperature'' \<and> success_label (strip ?l2)" by code_simp
  from first_label_wins [of ?t1 ?l1] obtain t' where
    p: "parse_line ?t1 ?l1 = Inr t'"
    and k: "\<forall>k. first_label (strip ?l1) \<noteq> Some k \<longrightarrow> map_of t' k = map_of ?t1 k"
    and v: "case first_label (strip ?l1) of
        None \<Rightarrow> t' = ?t1
      | Some k \<Rightarrow>
          if k = ''temperature'' then
            (case py_float (strip (after_colon (strip ?l1))) of
               Inl e \<Rightarrow> t' = ?t1
             | Inr x \<Rightarrow> t' = AList.update k (PFloat x) ?t1)
          else (\<exists>v. t' = AList.update k v ?t1)"
    by blast
  from v obtain v1 where "t' = AList.update ''model'' v1 ?t1" unfolding f1 by auto
  then have s: "t' = [(''success'', PInt 0), (''model'', v1)]" by simp
  have "parse_line ?t1 ?l1 = Inr [(''success'', PInt 0), (''model'', PStr ''a Category: b Success: true'')]"
    by code_simp
  with p s have 1: "parse_line ?t1 ?l1 =
      Inr [(''success'', PInt 0), (''model'', PStr ''a Category: b Success: true'')]"
    by simp
  from first_label_wins [of ?t2 ?l2] f2
  have 2: "parse_line ?t2 ?l2 = Inr ?t2" by blast
  from 1 2 show ?thesis by (rule conjI)
qed

end
